theory Spec2Isabelle
  imports Main "HOL-Library.Word"
begin

unbundle bit_operations_syntax

section \<open>httpfs: the range-streamed read path of src/main.py\<close>

text \<open>
  The module keeps its state in global dictionaries and talks to an HTTP origin.
  The model passes the state as a record, takes the origin and the clock as an
  environment, and returns every exception as a value.
\<close>

subsection \<open>Values\<close>

type_synonym byte = "8 word"
type_synonym bytes = "byte list"
type_synonym url = string
type_synonym chunk_key = "url \<times> int"

datatype error =
    ENOENT
  | EACCES
  | FileNotFoundError
  | TypeError
  | ValueError
  | KeyError
  | HTTPError int
  | ClientError

text \<open>
  \<open>fetch_chunks_sync(url, offsets, chunk_size)\<close> is called with a list of offsets by
  \<open>read\<close> and \<open>prefetch\<close> and with the integer \<open>chunk_start\<close> by \<open>get_file_chunk\<close>;
  Python checks nothing at the call, so the argument is either.
\<close>

datatype offsets_arg = PyInt int | PyList "int list"

text \<open>
  A value stored in \<open>file_chunk_cache\<close>: \<open>prefetch\<close> stores one body (\<open>chunks[i]\<close>),
  \<open>get_file_chunk\<close> stores whatever \<open>fetch_chunks_sync\<close> returned, which is a list of bodies.
\<close>

datatype cached = Chunk bytes | Chunks "bytes list"

subsection \<open>Module constants\<close>

definition DEFAULT_CHUNK_SIZE :: int where
  "DEFAULT_CHUNK_SIZE = 2 * 1024 * 1024"

definition CACHE_MAX_SIZE :: int where
  "CACHE_MAX_SIZE = 200 * 1024 * 1024"

definition NUM_CACHE_CHUNKS :: int where
  "NUM_CACHE_CHUNKS = CACHE_MAX_SIZE div DEFAULT_CHUNK_SIZE"

definition MAX_PREFETCH_AHEAD :: int where
  "MAX_PREFETCH_AHEAD = 100 * 1024 * 1024"

definition PREFETCH_BATCH_SIZE :: nat where
  "PREFETCH_BATCH_SIZE = 8"

subsection \<open>The block cache\<close>

text \<open>
  Modelled from the spec: \<open>cachetools.LRUCache\<close>, the class behind \<open>file_chunk_cache\<close>, is
  a library that is not under src/. The spec (sections 3 and 4.3) describes it as a bounded
  LRU map from chunk key to bytes with a fixed maximum number of resident chunks, where
  lookups and insertions both count as accesses and an insertion when full evicts the
  least-recently-used entry. Every entry has size 1 (no \<open>getsizeof\<close> is given), so the
  bound counts entries. \<open>entries\<close> is ordered from least to most recently used.
  A membership test (\<open>key in cache\<close>) and iteration over the keys do not count as accesses.
\<close>

record ('k, 'v) lru =
  maxsize :: int
  entries :: "('k \<times> 'v) list"

definition lru_empty :: "int \<Rightarrow> ('k, 'v) lru" where
  "lru_empty m = \<lparr>maxsize = m, entries = []\<rparr>"

definition lru_keys :: "('k, 'v) lru \<Rightarrow> 'k list" where
  "lru_keys c = map fst (entries c)"

definition lru_contains :: "('k, 'v) lru \<Rightarrow> 'k \<Rightarrow> bool" where
  "lru_contains c k = (k \<in> set (lru_keys c))"

definition lru_remove :: "'k \<Rightarrow> ('k \<times> 'v) list \<Rightarrow> ('k \<times> 'v) list" where
  "lru_remove k es = filter (\<lambda>e. fst e \<noteq> k) es"

text \<open>
  Modelled from the spec: the library's \<open>cache[key]\<close>, a lookup that counts as an access:
  the value, and the key becomes the most recently used; KeyError on a miss.
\<close>

definition lru_getitem :: "('k, 'v) lru \<Rightarrow> 'k \<Rightarrow> (error + 'v) \<times> ('k, 'v) lru" where
  "lru_getitem c k =
     (case map_of (entries c) k of
        None \<Rightarrow> (Inl KeyError, c)
      | Some v \<Rightarrow> (Inr v, c\<lparr>entries := lru_remove k (entries c) @ [(k, v)]\<rparr>))"

text \<open>
  Modelled from the spec: the library's \<open>cache.get(key, default)\<close>, the spec's \<open>get\<close>:
  as \<open>cache[key]\<close> on a hit, the default on a miss.
\<close>

definition lru_get :: "('k, 'v) lru \<Rightarrow> 'k \<Rightarrow> 'v \<Rightarrow> 'v \<times> ('k, 'v) lru" where
  "lru_get c k d =
     (if lru_contains c k
      then (case lru_getitem c k of (Inr v, c') \<Rightarrow> (v, c') | (Inl e, c') \<Rightarrow> (d, c'))
      else (d, c))"

text \<open>
  Modelled from the spec: the library's \<open>cache[key] = value\<close>, the spec's \<open>put\<close>.
  A value larger than the whole cache is refused with ValueError;
  for a new key the least recently used entries are popped while the cache is full;
  the key becomes the most recently used.
\<close>

definition lru_setitem :: "('k, 'v) lru \<Rightarrow> 'k \<Rightarrow> 'v \<Rightarrow> (error + unit) \<times> ('k, 'v) lru" where
  "lru_setitem c k v =
     (if 1 > maxsize c then (Inl ValueError, c)
      else if lru_contains c k
      then (Inr (), c\<lparr>entries := lru_remove k (entries c) @ [(k, v)]\<rparr>)
      else (Inr (), c\<lparr>entries :=
              drop (length (entries c) + 1 - nat (maxsize c)) (entries c) @ [(k, v)]\<rparr>))"

datatype ('k, 'v) cache_op = OpContains 'k | OpGet 'k | OpPut 'k 'v

fun cache_step :: "('k, 'v) lru \<Rightarrow> ('k, 'v) cache_op \<Rightarrow> ('k, 'v) lru" where
  "cache_step c (OpContains k) = c"
| "cache_step c (OpGet k) = snd (lru_getitem c k)"
| "cache_step c (OpPut k v) = snd (lru_setitem c k v)"

definition cache_run :: "('k, 'v) lru \<Rightarrow> ('k, 'v) cache_op list \<Rightarrow> ('k, 'v) lru" where
  "cache_run c ops = foldl cache_step c ops"

subsection \<open>Program state and environment\<close>

record attrs =
  st_ino :: int
  st_mode :: int
  st_size :: int
  st_uid :: int
  st_gid :: int
  st_atime_ns :: int
  st_mtime_ns :: int
  st_ctime_ns :: int
  st_nlink :: int

text \<open>A started thread running \<open>prefetch(url, start_offset, chunk_size, max_prefetch_bytes)\<close>.\<close>

datatype thread = PrefetchThread url int int int

fun thread_url :: "thread \<Rightarrow> url" where
  "thread_url (PrefetchThread u _ _ _) = u"

text \<open>
  The module's globals. \<open>INODE_MAP\<close> is searched in insertion order, so both registries are
  association lists. An \<open>Event\<close> object is shared between the in-flight table and the
  threads that wait on it: \<open>events\<close> is the store of their flags and an
  \<open>ongoing_requests\<close> entry holds an index into it. \<open>threads\<close> are the started threads
  that have not finished. The last two fields are not variables of the program: they
  record the requests the origin has received (for a GET, the url and the first and last
  byte of the range).
\<close>

record state =
  FILES :: "(string \<times> url) list"
  INODE_MAP :: "(string \<times> int) list"
  file_attributes_cache :: "string \<rightharpoonup> attrs"
  file_chunk_cache :: "(chunk_key, cached) lru"
  ongoing_requests :: "chunk_key \<rightharpoonup> nat"
  events :: "bool list"
  prefetch_threads :: "url \<rightharpoonup> thread"
  threads :: "thread list"
  head_log :: "url list"
  get_log :: "(url \<times> int \<times> int) list"

text \<open>
  The world outside: \<open>http_head url\<close> is what \<open>int(requests.head(url).headers.get("Content-Length", 0))\<close>
  comes to inside the \<open>try\<close> (\<open>Inl\<close>: the request or \<open>int\<close> raised; \<open>Inr None\<close>: no such
  header; \<open>Inr (Some n)\<close>: the header's value); \<open>http_get url first last\<close> is the reply
  to a GET with \<open>Range: bytes=first-last\<close> (\<open>Inl\<close>: the client raised; \<open>Inr (status, body)\<close>).
\<close>

record env =
  http_head :: "url \<Rightarrow> error + int option"
  http_get :: "url \<Rightarrow> int \<Rightarrow> int \<Rightarrow> error + (int \<times> bytes)"
  time_ns :: int
  getuid :: int
  getgid :: int

definition initial_state :: "(string \<times> url) list \<Rightarrow> (string \<times> int) list \<Rightarrow> state" where
  "initial_state files inodes =
     \<lparr>FILES = files, INODE_MAP = inodes, file_attributes_cache = Map.empty,
      file_chunk_cache = lru_empty NUM_CACHE_CHUNKS, ongoing_requests = Map.empty,
      events = [], prefetch_threads = Map.empty, threads = [],
      head_log = [], get_log = []\<rparr>"

subsection \<open>The size probe\<close>

definition get_file_attr :: "env \<Rightarrow> state \<Rightarrow> string \<Rightarrow> (error + attrs) \<times> state" where
  "get_file_attr e s filename =
     (case file_attributes_cache s filename of
        Some a \<Rightarrow> (Inr a, s)
      | None \<Rightarrow>
          (case (map_of (INODE_MAP s) filename, map_of (FILES s) filename) of
             (Some inode, Some u) \<Rightarrow>
               (let size = (case http_head e u of
                              Inl _ \<Rightarrow> 0
                            | Inr None \<Rightarrow> 0
                            | Inr (Some n) \<Rightarrow> n);
                    a = \<lparr>st_ino = inode, st_mode = 33060, st_size = size,
                         st_uid = getuid e, st_gid = getgid e,
                         st_atime_ns = time_ns e, st_mtime_ns = time_ns e,
                         st_ctime_ns = time_ns e, st_nlink = 1\<rparr>
                in (Inr a, s\<lparr>head_log := head_log s @ [u],
                             file_attributes_cache := (file_attributes_cache s)(filename \<mapsto> a)\<rparr>))
           | _ \<Rightarrow> (Inl FileNotFoundError, s)))"

subsection \<open>The chunk fetcher\<close>

text \<open>One GET with \<open>Range: bytes=offset-(offset + chunk_size - 1)\<close>; the body on 200 or 206.\<close>

definition fetch_chunk :: "env \<Rightarrow> url \<Rightarrow> int \<Rightarrow> int \<Rightarrow> error + bytes" where
  "fetch_chunk e u offset chunk_size =
     (case http_get e u offset (offset + chunk_size - 1) of
        Inl err \<Rightarrow> Inl err
      | Inr (status, body) \<Rightarrow>
          if status = 200 \<or> status = 206 then Inr body else Inl (HTTPError status))"

text \<open>
  \<open>asyncio.gather\<close>: the results in the order of the requests, or the exception of a
  request that failed. When several requests of one batch fail, the program raises the
  exception of the one that fails first in time; the model takes the first in the list.
\<close>

fun gather :: "(error + 'a) list \<Rightarrow> error + 'a list" where
  "gather [] = Inr []"
| "gather (Inl err # rs) = Inl err"
| "gather (Inr x # rs) = (case gather rs of Inl err \<Rightarrow> Inl err | Inr xs \<Rightarrow> Inr (x # xs))"

text \<open>
  \<open>fetch_chunks_async\<close> iterates over \<open>offsets\<close> to build its requests: an integer there is
  \<open>TypeError: 'int' object is not iterable\<close>, raised before any request is made.
\<close>

definition fetch_chunks_async ::
  "env \<Rightarrow> state \<Rightarrow> url \<Rightarrow> offsets_arg \<Rightarrow> int \<Rightarrow> (error + bytes list) \<times> state" where
  "fetch_chunks_async e s u offsets chunk_size =
     (case offsets of
        PyInt _ \<Rightarrow> (Inl TypeError, s)
      | PyList os \<Rightarrow>
          (gather (map (\<lambda>offset. fetch_chunk e u offset chunk_size) os),
           s\<lparr>get_log := get_log s @ map (\<lambda>offset. (u, offset, offset + chunk_size - 1)) os\<rparr>))"

definition fetch_chunks_sync ::
  "env \<Rightarrow> state \<Rightarrow> url \<Rightarrow> offsets_arg \<Rightarrow> int \<Rightarrow> (error + bytes list) \<times> state" where
  "fetch_chunks_sync e s u offsets chunk_size = fetch_chunks_async e s u offsets chunk_size"

subsection \<open>Python lists\<close>

text \<open>\<open>list(range(a, b, step))\<close> for a positive step (a step of 0 raises and is not used).\<close>

function py_range :: "int \<Rightarrow> int \<Rightarrow> int \<Rightarrow> int list" where
  "py_range a b step = (if 0 < step \<and> a < b then a # py_range (a + step) b step else [])"
  by pat_completeness auto
termination
  by (relation "measure (\<lambda>(a, b, step). nat (b - a))") auto

declare py_range.simps [simp del]

text \<open>\<open>xs[i:]\<close> and \<open>xs[:n]\<close>; a negative index counts from the end.\<close>

definition py_drop :: "int \<Rightarrow> 'a list \<Rightarrow> 'a list" where
  "py_drop i xs = (if 0 \<le> i then drop (nat i) xs else drop (length xs - nat (- i)) xs)"

definition py_take :: "int \<Rightarrow> 'a list \<Rightarrow> 'a list" where
  "py_take n xs = (if 0 \<le> n then take (nat n) xs else take (length xs - nat (- n)) xs)"

text \<open>\<open>max(xs)\<close> of a list that is not empty.\<close>

fun py_max :: "int list \<Rightarrow> int" where
  "py_max [] = 0"
| "py_max (x # xs) = foldl max x xs"

text \<open>\<open>next((fn for fn, ino in INODE_MAP.items() if ino == inode), None)\<close>\<close>

fun filename_of_inode :: "(string \<times> int) list \<Rightarrow> int \<Rightarrow> string option" where
  "filename_of_inode [] inode = None"
| "filename_of_inode ((fn, ino) # rest) inode =
     (if ino = inode then Some fn else filename_of_inode rest inode)"

subsection \<open>The prefetcher\<close>

definition maybe_prefetch :: "state \<Rightarrow> url \<Rightarrow> int \<Rightarrow> state" where
  "maybe_prefetch s u current_read_offset =
     (let cached_offsets = [off. (u', off) \<leftarrow> lru_keys (file_chunk_cache s), u' = u];
          highest_cached = (if cached_offsets \<noteq> [] then py_max cached_offsets
                            else current_read_offset);
          target = current_read_offset + MAX_PREFETCH_AHEAD
      in if highest_cached < target
         then s\<lparr>threads := threads s @
                  [PrefetchThread u highest_cached DEFAULT_CHUNK_SIZE (target - highest_cached)]\<rparr>
         else s)"

text \<open>
  The inner \<open>for _ in range(PREFETCH_BATCH_SIZE)\<close> loop of \<open>prefetch\<close>: the offsets that
  are not cached yet, and the offset it stopped at.
\<close>

fun collect_batch ::
  "nat \<Rightarrow> state \<Rightarrow> url \<Rightarrow> int \<Rightarrow> int \<Rightarrow> int \<Rightarrow> int list \<Rightarrow> int list \<times> int" where
  "collect_batch 0 s u current end_offset chunk_size offsets_to_fetch =
     (offsets_to_fetch, current)"
| "collect_batch (Suc n) s u current end_offset chunk_size offsets_to_fetch =
     (if current \<ge> end_offset then (offsets_to_fetch, current)
      else if lru_contains (file_chunk_cache s) (u, current)
      then collect_batch n s u (current + chunk_size) end_offset chunk_size offsets_to_fetch
      else collect_batch n s u (current + chunk_size) end_offset chunk_size
             (offsets_to_fetch @ [current]))"

text \<open>
  \<open>for i, offset in enumerate(offsets_to_fetch): file_chunk_cache[(url, offset)] = chunks[i]\<close>;
  a successful batch has one body for each offset.
\<close>

fun store_chunks :: "state \<Rightarrow> url \<Rightarrow> (int \<times> bytes) list \<Rightarrow> (error + unit) \<times> state" where
  "store_chunks s u [] = (Inr (), s)"
| "store_chunks s u ((offset, body) # rest) =
     (case lru_setitem (file_chunk_cache s) (u, offset) (Chunk body) of
        (Inl err, c) \<Rightarrow> (Inl err, s)
      | (Inr _, c) \<Rightarrow> store_chunks (s\<lparr>file_chunk_cache := c\<rparr>) u rest)"

text \<open>
  The \<open>while current < end_offset\<close> loop. Nothing bounds it when \<open>chunk_size\<close> is not
  positive, so not returning is the value \<open>None\<close>.
\<close>

partial_function (option) prefetch_loop ::
  "env \<Rightarrow> state \<Rightarrow> url \<Rightarrow> int \<Rightarrow> int \<Rightarrow> int \<Rightarrow> ((error + unit) \<times> state) option" where
  "prefetch_loop e s u current end_offset chunk_size =
     (if current < end_offset
      then (case collect_batch PREFETCH_BATCH_SIZE s u current end_offset chunk_size [] of
              (offsets_to_fetch, current') \<Rightarrow>
                if offsets_to_fetch = [] then Some (Inr (), s)
                else (case fetch_chunks_sync e s u (PyList offsets_to_fetch) chunk_size of
                        (Inl err, s1) \<Rightarrow> Some (Inl err, s1)
                      | (Inr chunks, s1) \<Rightarrow>
                          (case store_chunks s1 u (zip offsets_to_fetch chunks) of
                             (Inl err, s2) \<Rightarrow> Some (Inl err, s2)
                           | (Inr _, s2) \<Rightarrow>
                               prefetch_loop e s2 u current' end_offset chunk_size)))
      else Some (Inr (), s))"

text \<open>
  \<open>prefetch\<close>: the loop, then \<open>prefetch_threads.pop(url, None)\<close>. An exception in the loop
  leaves the function before that last statement.
\<close>

definition prefetch ::
  "env \<Rightarrow> state \<Rightarrow> url \<Rightarrow> int \<Rightarrow> int \<Rightarrow> int \<Rightarrow> ((error + unit) \<times> state) option" where
  "prefetch e s u start_offset chunk_size max_prefetch_bytes =
     (case prefetch_loop e s u start_offset (start_offset + max_prefetch_bytes) chunk_size of
        None \<Rightarrow> None
      | Some (Inl err, s') \<Rightarrow> Some (Inl err, s')
      | Some (Inr _, s') \<Rightarrow>
          Some (Inr (), s'\<lparr>prefetch_threads := (prefetch_threads s')(u := None)\<rparr>))"

text \<open>
  A started thread runs to its end: it leaves the list of running threads, and an
  exception that escapes its target ends the thread and reaches nobody.
\<close>

definition run_thread :: "env \<Rightarrow> state \<Rightarrow> nat \<Rightarrow> state option" where
  "run_thread e s i =
     (if i < length (threads s)
      then (case threads s ! i of
              PrefetchThread u start_offset chunk_size max_prefetch_bytes \<Rightarrow>
                (case prefetch e s u start_offset chunk_size max_prefetch_bytes of
                   None \<Rightarrow> None
                 | Some (_, s') \<Rightarrow>
                     Some (s'\<lparr>threads := take i (threads s') @ drop (Suc i) (threads s')\<rparr>)))
      else Some s)"

subsection \<open>The single-flight coordinator\<close>

text \<open>
  What a call comes to: it returns, it raises, or it is blocked in \<open>event.wait()\<close>
  on the event at that index until another thread sets the flag.
\<close>

datatype 'a outcome = Return 'a | Raise error | Waiting nat


text \<open>The follower after \<open>event.wait()\<close> has returned: \<open>file_chunk_cache.get(cache_key, b"")\<close>.\<close>

definition get_file_chunk_wake :: "state \<Rightarrow> url \<Rightarrow> int \<Rightarrow> cached outcome \<times> state" where
  "get_file_chunk_wake s file_url chunk_start =
     (case lru_get (file_chunk_cache s) (file_url, chunk_start) (Chunk []) of
        (v, c) \<Rightarrow> (Return v, s\<lparr>file_chunk_cache := c\<rparr>))"

definition get_file_chunk ::
  "env \<Rightarrow> state \<Rightarrow> url \<Rightarrow> int \<Rightarrow> int \<Rightarrow> cached outcome \<times> state" where
  "get_file_chunk e s file_url chunk_start chunk_size =
     (let cache_key = (file_url, chunk_start) in
      if lru_contains (file_chunk_cache s) cache_key
      then (case lru_getitem (file_chunk_cache s) cache_key of
              (Inl err, c) \<Rightarrow> (Raise err, s)
            | (Inr v, c) \<Rightarrow> (Return v, s\<lparr>file_chunk_cache := c\<rparr>))
      else (case ongoing_requests s cache_key of
              Some ev \<Rightarrow>
                if ev < length (events s) \<and> events s ! ev
                then get_file_chunk_wake s file_url chunk_start
                else (Waiting ev, s)
            | None \<Rightarrow>
                (let ev = length (events s);
                     s1 = s\<lparr>events := events s @ [False],
                            ongoing_requests := (ongoing_requests s)(cache_key \<mapsto> ev)\<rparr>
                 in case fetch_chunks_sync e s1 file_url (PyInt chunk_start) chunk_size of
                      (Inl err, s2) \<Rightarrow> (Raise err, s2)
                    | (Inr chunk, s2) \<Rightarrow>
                        (case lru_setitem (file_chunk_cache s2) cache_key (Chunks chunk) of
                           (Inl err, c) \<Rightarrow> (Raise err, s2)
                         | (Inr _, c) \<Rightarrow>
                             (case ongoing_requests s2 cache_key of
                                None \<Rightarrow> (Raise KeyError, s2\<lparr>file_chunk_cache := c\<rparr>)
                              | Some ev' \<Rightarrow>
                                  (Return (Chunks chunk),
                                   s2\<lparr>file_chunk_cache := c,
                                      events := (events s2)[ev' := True],
                                      ongoing_requests :=
                                        (ongoing_requests s2)(cache_key := None)\<rparr>))))))"

subsection \<open>The filesystem operations\<close>

text \<open>
  \<open>HTTPFS.open\<close>. \<open>os.O_WRONLY | os.O_RDWR\<close> is 3. An empty file name or url is false
  in \<open>if filename and url\<close>.
\<close>

definition "open" :: "env \<Rightarrow> state \<Rightarrow> int \<Rightarrow> int \<Rightarrow> (error + int) \<times> state" where
  "open e s inode flags =
     (if flags AND 3 \<noteq> 0 then (Inl EACCES, s)
      else
        (let filename = filename_of_inode (INODE_MAP s) inode;
             u = (case filename of
                    None \<Rightarrow> None
                  | Some fn \<Rightarrow> if fn \<noteq> [] then map_of (FILES s) fn else None)
         in case (filename, u) of
              (Some fn, Some u') \<Rightarrow>
                if fn \<noteq> [] \<and> u' \<noteq> [] \<and> \<not> lru_contains (file_chunk_cache s) (u', 0)
                   \<and> prefetch_threads s u' = None
                then (case get_file_attr e s fn of
                        (Inl err, s1) \<Rightarrow> (Inl err, s1)
                      | (Inr a, s1) \<Rightarrow>
                          (let t = PrefetchThread u' 0 DEFAULT_CHUNK_SIZE
                                     (min CACHE_MAX_SIZE (min (st_size a) (10 * 1024 * 1024)))
                           in (Inr inode,
                               s1\<lparr>prefetch_threads := (prefetch_threads s1)(u' \<mapsto> t),
                                  threads := threads s1 @ [t]\<rparr>)))
                else (Inr inode, s)
            | _ \<Rightarrow> (Inr inode, s)))"

text \<open>The chunk offsets \<open>read\<close> asks for, and the splice of the bodies it gets.\<close>

definition read_offsets :: "int \<Rightarrow> int \<Rightarrow> int list" where
  "read_offsets off sz =
     (let start_offset = off - (off mod DEFAULT_CHUNK_SIZE);
          end_offset = off + sz;
          offsets = py_range start_offset end_offset DEFAULT_CHUNK_SIZE
      in if offsets = [] then [start_offset] else offsets)"

fun assemble :: "int \<Rightarrow> bytes list \<Rightarrow> bytes" where
  "assemble start_in_chunk [] = []"
| "assemble start_in_chunk (chunk # chunks) = py_drop start_in_chunk chunk @ concat chunks"

definition read_result :: "int \<Rightarrow> int \<Rightarrow> bytes list \<Rightarrow> bytes" where
  "read_result off sz chunks =
     py_take sz (assemble (off - (off - (off mod DEFAULT_CHUNK_SIZE))) chunks)"

text \<open>The url behind a file handle, or ENOENT (also for an empty url: \<open>if not url\<close>).\<close>

definition url_of_handle :: "state \<Rightarrow> int \<Rightarrow> error + url" where
  "url_of_handle s fh =
     (case filename_of_inode (INODE_MAP s) fh of
        None \<Rightarrow> Inl ENOENT
      | Some filename \<Rightarrow>
          (case map_of (FILES s) filename of
             None \<Rightarrow> Inl ENOENT
           | Some u \<Rightarrow> if u = [] then Inl ENOENT else Inr u))"

text \<open>\<open>HTTPFS.read\<close>\<close>

definition read :: "env \<Rightarrow> state \<Rightarrow> int \<Rightarrow> int \<Rightarrow> int \<Rightarrow> (error + bytes) \<times> state" where
  "read e s fh off sz =
     (case url_of_handle s fh of
        Inl err \<Rightarrow> (Inl err, s)
      | Inr u \<Rightarrow>
          (case fetch_chunks_sync e s u (PyList (read_offsets off sz)) DEFAULT_CHUNK_SIZE of
             (Inl err, s1) \<Rightarrow> (Inl err, s1)
           | (Inr chunks, s1) \<Rightarrow>
               (Inr (read_result off sz chunks), maybe_prefetch s1 u (off + sz))))"

subsection \<open>Origins and states of the examples\<close>

text \<open>
  A cooperative origin that serves the same content under every url and answers a range
  that starts past the end with 416; an origin on which every request fails; a state with
  one registered file.
\<close>

definition fake_origin :: "bytes \<Rightarrow> env" where
  "fake_origin content =
     \<lparr>http_head = (\<lambda>u. Inr (Some (int (length content)))),
      http_get = (\<lambda>u first last.
         if 0 \<le> first \<and> first < int (length content) \<and> first \<le> last
         then Inr (206, take (nat (last - first + 1)) (drop (nat first) content))
         else Inr (416, [])),
      time_ns = 0, getuid = 0, getgid = 0\<rparr>"

definition dead_origin :: env where
  "dead_origin =
     \<lparr>http_head = (\<lambda>u. Inl ClientError),
      http_get = (\<lambda>u first last. Inl ClientError),
      time_ns = 0, getuid = 0, getgid = 0\<rparr>"

definition one_file :: state where
  "one_file = initial_state [(''a.mkv'', ''http://origin/a'')] [(''a.mkv'', 2)]"



text \<open>The bound on the block cache as a property of the program state.\<close>

definition cache_bounded :: "state \<Rightarrow> bool" where
  "cache_bounded s =
     (maxsize (file_chunk_cache s) = NUM_CACHE_CHUNKS
      \<and> int (length (entries (file_chunk_cache s))) \<le> NUM_CACHE_CHUNKS)"

text \<open>A full cache of two slots.\<close>

definition two_slots :: "(nat, nat) lru" where
  "two_slots = \<lparr>maxsize = 2, entries = [(1, 10), (2, 20)]\<rparr>"

text \<open>
  Recency, read off the history of operations alone: a lookup or an insertion of a key
  touches it, a membership test touches nothing; \<open>last_touch ops k\<close> is the position
  (counted from 1) of the last operation of \<open>ops\<close> that touched \<open>k\<close>, and 0 when none did.
  A list of keys is in recency order when it has no duplicates and each key was last
  touched before the next one.
\<close>

fun touches :: "('k, 'v) cache_op \<Rightarrow> 'k \<Rightarrow> bool" where
  "touches (OpContains k') k = False"
| "touches (OpGet k') k = (k' = k)"
| "touches (OpPut k' v) k = (k' = k)"

fun last_touch_rev :: "('k, 'v) cache_op list \<Rightarrow> 'k \<Rightarrow> nat" where
  "last_touch_rev [] k = 0"
| "last_touch_rev (op # older) k =
     (if touches op k then Suc (length older) else last_touch_rev older k)"

definition last_touch :: "('k, 'v) cache_op list \<Rightarrow> 'k \<Rightarrow> nat" where
  "last_touch ops k = last_touch_rev (rev ops) k"

definition recency_ordered :: "('k, 'v) cache_op list \<Rightarrow> 'k list \<Rightarrow> bool" where
  "recency_ordered ops ks =
     (distinct ks \<and> sorted_wrt (\<lambda>a b. last_touch ops a < last_touch ops b) ks)"

text \<open>Two insertions, then a lookup of the older key.\<close>

definition refreshed_history :: "(nat, nat) cache_op list" where
  "refreshed_history = [OpPut 1 10, OpPut 2 20, OpGet 1]"

text \<open>The state after a size probe of the registered file that failed.\<close>

definition probe_failed_state :: state where
  "probe_failed_state = snd (get_file_attr dead_origin one_file ''a.mkv'')"

text \<open>
  An origin that serves three bytes; a state in which the first chunk of the file is cached;
  the state after the file has been opened (the warm-up worker started and not yet run);
  and the state after that worker has died on its first batch.
\<close>

definition three_bytes :: env where
  "three_bytes = fake_origin [10, 11, 12]"

definition chunk0_cached :: state where
  "chunk0_cached =
     one_file\<lparr>file_chunk_cache :=
       \<lparr>maxsize = NUM_CACHE_CHUNKS, entries = [((''http://origin/a'', 0), Chunk [10, 11, 12])]\<rparr>\<rparr>"

definition opened :: state where
  "opened = snd (open three_bytes one_file 2 0)"

definition worker_failed :: state where
  "worker_failed = opened\<lparr>get_log := [(''http://origin/a'', 0, 2097151)], threads := []\<rparr>"

subsection \<open>Overlapping reads\<close>

text \<open>
  The filesystem loop serves requests on several threads, so calls of \<open>read\<close> overlap.
  A call has one point where it waits: for the replies, inside \<open>fetch_chunks_sync\<close>.
  A reader is a call that has not started, a call whose requests are sent and whose replies
  are awaited, or a call that has returned; \<open>read_send\<close> is \<open>read\<close> up to that point and
  \<open>read_receive\<close> is \<open>read\<close> from there on. A schedule names the reader that takes the
  next step. The chunk keys in flight are those of the readers that await replies.
\<close>

datatype reader =
    Pending int int int
  | InFlight url "int list" int int
  | Finished "error + bytes"

definition read_send :: "state \<Rightarrow> int \<Rightarrow> int \<Rightarrow> int \<Rightarrow> reader \<times> state" where
  "read_send s fh off sz =
     (case url_of_handle s fh of
        Inl err \<Rightarrow> (Finished (Inl err), s)
      | Inr u \<Rightarrow>
          (InFlight u (read_offsets off sz) off sz,
           s\<lparr>get_log := get_log s @
                map (\<lambda>offset. (u, offset, offset + DEFAULT_CHUNK_SIZE - 1)) (read_offsets off sz)\<rparr>))"

definition read_receive ::
  "env \<Rightarrow> state \<Rightarrow> url \<Rightarrow> int list \<Rightarrow> int \<Rightarrow> int \<Rightarrow> reader \<times> state" where
  "read_receive e s u offsets off sz =
     (case gather (map (\<lambda>offset. fetch_chunk e u offset DEFAULT_CHUNK_SIZE) offsets) of
        Inl err \<Rightarrow> (Finished (Inl err), s)
      | Inr chunks \<Rightarrow>
          (Finished (Inr (read_result off sz chunks)), maybe_prefetch s u (off + sz)))"

fun reader_step :: "env \<Rightarrow> state \<Rightarrow> reader \<Rightarrow> reader \<times> state" where
  "reader_step e s (Pending fh off sz) = read_send s fh off sz"
| "reader_step e s (InFlight u offsets off sz) = read_receive e s u offsets off sz"
| "reader_step e s (Finished r) = (Finished r, s)"

definition sched_step :: "env \<Rightarrow> state \<times> reader list \<Rightarrow> nat \<Rightarrow> state \<times> reader list" where
  "sched_step e w i =
     (case w of (s, ts) \<Rightarrow>
        if i < length ts
        then (case reader_step e s (ts ! i) of (t, s') \<Rightarrow> (s', ts[i := t]))
        else w)"

definition run :: "env \<Rightarrow> state \<times> reader list \<Rightarrow> nat list \<Rightarrow> state \<times> reader list" where
  "run e w schedule = foldl (sched_step e) w schedule"

fun reader_keys :: "reader \<Rightarrow> chunk_key list" where
  "reader_keys (InFlight u offsets off sz) = map (Pair u) offsets"
| "reader_keys _ = []"

definition in_flight :: "state \<times> reader list \<Rightarrow> chunk_key list" where
  "in_flight w = concat (map reader_keys (snd w))"

text \<open>Two calls \<open>read(2, 0, 1)\<close> on the state with one file, not yet started.\<close>

definition two_readers :: "state \<times> reader list" where
  "two_readers = (one_file, [Pending 2 0 1, Pending 2 0 1])"

section \<open>Properties\<close>

subsection \<open>Byte fidelity of read\<close>

lemma gather_map_Inr: "gather (map (\<lambda>x. Inr (f x)) xs) = Inr (map f xs)"
  by (induction xs) simp_all

lemma concat_slices:
  "0 < cs \<Longrightarrow> 0 \<le> a \<Longrightarrow>
   concat (map (\<lambda>x. take (nat cs) (drop (nat x) X)) (py_range a b cs)) =
   take (length (py_range a b cs) * nat cs) (drop (nat a) X)"
proof (induction a b cs rule: py_range.induct)
  case (1 a b step)
  show ?case
  proof (cases "a < b")
    case True
    with 1 have IH: "concat (map (\<lambda>x. take (nat step) (drop (nat x) X)) (py_range (a + step) b step)) =
       take (length (py_range (a + step) b step) * nat step) (drop (nat (a + step)) X)"
      by simp
    have d: "drop (nat (a + step)) X = drop (nat step) (drop (nat a) X)"
      using 1(2,3) by (simp add: nat_add_distrib add.commute)
    show ?thesis
      using True 1(2) 
      by (subst (1 2) py_range.simps) (simp add: IH d take_add)
  next
    case False
    then show ?thesis by (subst (1 2) py_range.simps) simp
  qed
qed

lemma py_range_covers:
  "0 < cs \<Longrightarrow> nat (b - a) \<le> length (py_range a b cs) * nat cs"
proof (induction a b cs rule: py_range.induct)
  case (1 a b step)
  show ?case
  proof (cases "a < b")
    case True
    with 1 have IH: "nat (b - (a + step)) \<le> length (py_range (a + step) b step) * nat step"
      by simp
    have "nat (b - a) \<le> nat (b - (a + step)) + nat step" using 1(2) by linarith
    then show ?thesis
      using True 1(2) IH by (subst py_range.simps) simp
  next
    case False
    then show ?thesis by simp
  qed
qed

lemma fetch_all_honest:
  assumes "\<forall>x \<in> set os. fetch_chunk e u x cs = Inr (f x)"
  shows "fst (fetch_chunks_sync e s u (PyList os) cs) = Inr (map f os)"
proof -
  have eq: "map (\<lambda>offset. fetch_chunk e u offset cs) os = map (\<lambda>x. Inr (f x)) os"
    using assms by simp
  show ?thesis
    by (simp add: fetch_chunks_sync_def fetch_chunks_async_def eq gather_map_Inr)
qed

lemma chunk_size_pos: "0 < DEFAULT_CHUNK_SIZE"
  by (simp add: DEFAULT_CHUNK_SIZE_def)

text \<open>
  C1. For a registered file handle and a range with \<open>0 \<le> off\<close>, \<open>0 \<le> sz\<close> and
  \<open>off + sz\<close> at most the content length, if every chunk fetch that \<open>read\<close> makes returns the
  origin's bytes of its range (the chunk-size bytes from the chunk offset, fewer at the end
  of the content), then \<open>read\<close> returns the origin's bytes at \<open>[off, off + sz)\<close>.
\<close>

theorem read_byte_fidelity:
  assumes reg: "url_of_handle s fh = Inr u"
    and origin: "\<forall>x \<in> set (read_offsets off sz).
        fetch_chunk e u x DEFAULT_CHUNK_SIZE =
        Inr (take (nat DEFAULT_CHUNK_SIZE) (drop (nat x) content))"
    and off: "0 \<le> off" and sz: "0 \<le> sz"
    and inside: "off + sz \<le> int (length content)"
  shows "fst (read e s fh off sz) = Inr (take (nat sz) (drop (nat off) content))"
proof -
  define cs where "cs = DEFAULT_CHUNK_SIZE"
  define A where "A = off - off mod cs"
  define f where "f = (\<lambda>x. take (nat cs) (drop (nat x) content))"
  have cs: "0 < cs" by (simp add: cs_def chunk_size_pos)
  have A: "0 \<le> A" "A \<le> off" "off - A < cs"
    using cs off by (simp_all add: A_def zmod_le_nonneg_dividend)
  have fetched: "fst (fetch_chunks_sync e s u (PyList (read_offsets off sz)) cs) =
                 Inr (map f (read_offsets off sz))"
    unfolding f_def cs_def using origin by (rule fetch_all_honest)
  then obtain s1 where run: "fetch_chunks_sync e s u (PyList (read_offsets off sz)) cs =
                 (Inr (map f (read_offsets off sz)), s1)"
    by (cases "fetch_chunks_sync e s u (PyList (read_offsets off sz)) cs") simp
  have res: "fst (read e s fh off sz) = Inr (read_result off sz (map f (read_offsets off sz)))"
    using run by (simp add: read_def reg cs_def)
  have "read_result off sz (map f (read_offsets off sz)) = take (nat sz) (drop (nat off) content)"
  proof (cases "sz = 0")
    case True
    then show ?thesis by (simp add: read_result_def py_take_def)
  next
    case False
    with sz have pos: "0 < sz" by simp
    then have lt: "A < off + sz" using A by simp
    define rest where "rest = py_range (A + cs) (off + sz) cs"
    have cons: "py_range A (off + sz) cs = A # rest"
      using lt cs by (subst py_range.simps) (simp add: rest_def)
    have offs: "read_offsets off sz = py_range A (off + sz) cs"
      using cons by (simp add: read_offsets_def Let_def A_def cs_def)
    have len0: "nat (off - A) \<le> length (f A)"
      using A pos inside cs by (simp add: f_def) linarith
    have cover: "nat (off + sz - A) \<le> length (py_range A (off + sz) cs) * nat cs"
      by (rule py_range_covers [OF cs])
    have "assemble (off - A) (map f (A # rest)) = drop (nat (off - A)) (f A) @ concat (map f rest)"
      using A by (simp add: py_drop_def)
    also have "\<dots> = drop (nat (off - A)) (concat (map f (A # rest)))"
      using len0 by simp
    also have "\<dots> = drop (nat (off - A))
                       (take (length (py_range A (off + sz) cs) * nat cs) (drop (nat A) content))"
      unfolding cons [symmetric] f_def by (simp add: concat_slices [OF cs A(1)])
    also have "\<dots> = take (length (py_range A (off + sz) cs) * nat cs - nat (off - A))
                       (drop (nat off) content)"
      using A by (simp add: drop_take nat_diff_distrib)
    finally have asm: "assemble (off - A) (map f (read_offsets off sz)) =
        take (length (py_range A (off + sz) cs) * nat cs - nat (off - A)) (drop (nat off) content)"
      by (simp add: offs cons)
    have "nat sz \<le> length (py_range A (off + sz) cs) * nat cs - nat (off - A)"
      using cover A sz by linarith
    moreover have "read_result off sz (map f (read_offsets off sz)) =
        take (nat sz) (assemble (off - A) (map f (read_offsets off sz)))"
      using sz by (simp add: read_result_def py_take_def A_def cs_def)
    ultimately show ?thesis
      by (simp add: asm min_absorb1)
  qed
  with res show ?thesis by simp
qed

lemma read_offsets_small: "read_offsets 1 3 = [0]"
  by (simp add: read_offsets_def DEFAULT_CHUNK_SIZE_def py_range.simps)

theorem read_byte_fidelity_witness:
  "url_of_handle one_file 2 = Inr ''http://origin/a''
   \<and> read_offsets 1 3 = [0]
   \<and> fetch_chunk (fake_origin [10, 11, 12, 13, 14]) ''http://origin/a'' 0 DEFAULT_CHUNK_SIZE =
        Inr (take (nat DEFAULT_CHUNK_SIZE) (drop (nat 0) [10, 11, 12, 13, 14]))
   \<and> (0::int) \<le> 1 \<and> (0::int) \<le> 3 \<and> (1::int) + 3 \<le> int (length [10, 11, 12, 13, 14 :: byte])
   \<and> fst (read (fake_origin [10, 11, 12, 13, 14]) one_file 2 1 3) = Inr [11, 12, 13]"
proof -
  have reg: "url_of_handle one_file 2 = Inr ''http://origin/a''"
    by (simp add: url_of_handle_def one_file_def initial_state_def)
  have origin: "\<forall>x \<in> set (read_offsets 1 3).
        fetch_chunk (fake_origin [10, 11, 12, 13, 14]) ''http://origin/a'' x DEFAULT_CHUNK_SIZE =
        Inr (take (nat DEFAULT_CHUNK_SIZE) (drop (nat x) [10, 11, 12, 13, 14]))"
    by (simp add: read_offsets_small fetch_chunk_def fake_origin_def DEFAULT_CHUNK_SIZE_def)
  have inside: "(1::int) + 3 \<le> int (length [10, 11, 12, 13, 14 :: byte])"
    by simp
  show ?thesis
    using reg origin inside read_byte_fidelity [OF reg origin _ _ inside]
    by (simp add: read_offsets_small)
qed

subsection \<open>The single-flight coordinator: leader and follower\<close>

lemma fetch_int_offsets:
  "fetch_chunks_sync e s u (PyInt k) cs = (Inl TypeError, s)"
  by (simp add: fetch_chunks_sync_def fetch_chunks_async_def)

text \<open>
  C10. A call of \<open>get_file_chunk\<close> whose key is neither cached nor in flight takes the
  leader branch and fails with a type error, whatever the origin would answer: it passes
  the integer \<open>chunk_start\<close> as \<open>offsets\<close>. Nothing is inserted into the cache, no request
  reaches the origin, and the in-flight entry it installed stays, its event not set.
\<close>

theorem get_file_chunk_leader_type_error:
  assumes miss: "\<not> lru_contains (file_chunk_cache s) (u, k)"
    and idle: "ongoing_requests s (u, k) = None"
  shows "fst (get_file_chunk e s u k cs) = Raise TypeError
    \<and> file_chunk_cache (snd (get_file_chunk e s u k cs)) = file_chunk_cache s
    \<and> ongoing_requests (snd (get_file_chunk e s u k cs)) (u, k) = Some (length (events s))
    \<and> events (snd (get_file_chunk e s u k cs)) = events s @ [False]
    \<and> get_log (snd (get_file_chunk e s u k cs)) = get_log s"
  using miss idle by (simp add: get_file_chunk_def Let_def fetch_int_offsets)

theorem get_file_chunk_leader_type_error_witness:
  "\<not> lru_contains (file_chunk_cache one_file) (''http://origin/a'', 0)
   \<and> ongoing_requests one_file (''http://origin/a'', 0) = None
   \<and> fst (get_file_chunk (fake_origin [10, 11, 12]) one_file ''http://origin/a'' 0 DEFAULT_CHUNK_SIZE)
       = Raise TypeError
   \<and> ongoing_requests
        (snd (get_file_chunk (fake_origin [10, 11, 12]) one_file ''http://origin/a'' 0 DEFAULT_CHUNK_SIZE))
        (''http://origin/a'', 0) = Some 0"
proof -
  have miss: "\<not> lru_contains (file_chunk_cache one_file) (''http://origin/a'', 0)"
    by (simp add: one_file_def initial_state_def lru_contains_def lru_keys_def lru_empty_def)
  have idle: "ongoing_requests one_file (''http://origin/a'', 0) = None"
    by (simp add: one_file_def initial_state_def)
  have "events one_file = []"
    by (simp add: one_file_def initial_state_def)
  then show ?thesis
    using miss idle
      get_file_chunk_leader_type_error [OF miss idle, of "fake_origin [10, 11, 12]" DEFAULT_CHUNK_SIZE]
    by simp
qed

text \<open>
  C4 asks that a leader whose fetch fails signals the handle and removes the key from the
  in-flight table. On a fresh state the leader's fetch fails and the exception leaves
  \<open>get_file_chunk\<close> at once: the key is still in \<open>ongoing_requests\<close> afterwards and its
  event is not set.
\<close>

theorem leader_failure_leaves_inflight_entry:
  "fst (get_file_chunk dead_origin one_file ''http://origin/a'' 0 DEFAULT_CHUNK_SIZE) = Raise TypeError
   \<and> ongoing_requests
        (snd (get_file_chunk dead_origin one_file ''http://origin/a'' 0 DEFAULT_CHUNK_SIZE))
        (''http://origin/a'', 0) = Some 0
   \<and> events (snd (get_file_chunk dead_origin one_file ''http://origin/a'' 0 DEFAULT_CHUNK_SIZE))
        = [False]"
  by (simp add: get_file_chunk_def Let_def fetch_int_offsets one_file_def initial_state_def
      lru_contains_def lru_keys_def lru_empty_def)

lemma lru_contains_map_of: "lru_contains c k \<longleftrightarrow> map_of (entries c) k \<noteq> None"
  by (simp add: lru_contains_def lru_keys_def map_of_eq_None_iff)






subsection \<open>The cache bound\<close>

lemma num_cache_chunks: "NUM_CACHE_CHUNKS = 100"
  by (simp add: NUM_CACHE_CHUNKS_def CACHE_MAX_SIZE_def DEFAULT_CHUNK_SIZE_def)

lemma lru_remove_present:
  "k \<in> fst ` set es \<Longrightarrow> length (lru_remove k es) < length es"
  unfolding lru_remove_def by (auto intro: length_filter_less)

lemma lru_getitem_bound:
  "int (length (entries c)) \<le> maxsize c \<Longrightarrow>
   int (length (entries (snd (lru_getitem c k)))) \<le> maxsize c
   \<and> maxsize (snd (lru_getitem c k)) = maxsize c"
proof (cases "map_of (entries c) k")
  case None
  then show "int (length (entries c)) \<le> maxsize c \<Longrightarrow> ?thesis"
    by (simp add: lru_getitem_def)
next
  case (Some v)
  then have "k \<in> fst ` set (entries c)"
    by (metis map_of_eq_None_iff option.distinct(1))
  then have "length (lru_remove k (entries c)) < length (entries c)"
    by (rule lru_remove_present)
  then show "int (length (entries c)) \<le> maxsize c \<Longrightarrow> ?thesis"
    using Some by (simp add: lru_getitem_def)
qed

lemma lru_setitem_bound:
  assumes "int (length (entries c)) \<le> maxsize c"
  shows "int (length (entries (snd (lru_setitem c k v)))) \<le> maxsize c
   \<and> maxsize (snd (lru_setitem c k v)) = maxsize c"
proof (cases "lru_contains c k")
  case True
  then have "length (lru_remove k (entries c)) < length (entries c)"
    by (simp add: lru_contains_def lru_keys_def lru_remove_present)
  with assms True show ?thesis
    by (simp add: lru_setitem_def)
next
  case False
  with assms show ?thesis
    by (auto simp: lru_setitem_def)
qed

lemma cache_step_bound:
  "int (length (entries c)) \<le> maxsize c \<Longrightarrow>
   int (length (entries (cache_step c op))) \<le> maxsize c \<and> maxsize (cache_step c op) = maxsize c"
  by (cases op) (simp_all add: lru_getitem_bound lru_setitem_bound)

lemma cache_run_bound:
  "int (length (entries c)) \<le> maxsize c \<Longrightarrow>
   int (length (entries (cache_run c ops))) \<le> maxsize c \<and> maxsize (cache_run c ops) = maxsize c"
  unfolding cache_run_def
proof (induction ops arbitrary: c)
  case Nil
  then show ?case by simp
next
  case (Cons op ops)
  from cache_step_bound [OF Cons.prems, of op]
  have a: "int (length (entries (cache_step c op))) \<le> maxsize (cache_step c op)"
    and b: "maxsize (cache_step c op) = maxsize c" by simp_all
  from Cons.IH [OF a] b show ?case by simp
qed

lemma lru_evicts_oldest:
  assumes "int (length (entries c)) = maxsize c" "1 \<le> maxsize c" "\<not> lru_contains c k"
  shows "lru_setitem c k v = (Inr (), c\<lparr>entries := tl (entries c) @ [(k, v)]\<rparr>)"
proof -
  have "length (entries c) + 1 - nat (maxsize c) = 1"
    using assms by linarith
  then show ?thesis
    using assms by (simp add: lru_setitem_def drop_Suc)
qed

lemma fetch_chunks_sync_cache:
  "file_chunk_cache (snd (fetch_chunks_sync e s u os cs)) = file_chunk_cache s"
  by (cases os) (simp_all add: fetch_chunks_sync_def fetch_chunks_async_def)

lemma maybe_prefetch_cache:
  "file_chunk_cache (maybe_prefetch s u x) = file_chunk_cache s"
  by (simp add: maybe_prefetch_def Let_def)

lemma get_file_attr_cache:
  "file_chunk_cache (snd (get_file_attr e s fn)) = file_chunk_cache s"
  by (simp add: get_file_attr_def Let_def split: option.splits sum.splits)

lemma read_cache: "file_chunk_cache (snd (read e s fh off sz)) = file_chunk_cache s"
proof (cases "url_of_handle s fh")
  case (Inl err)
  then show ?thesis by (simp add: read_def)
next
  case (Inr u)
  obtain r s1 where f: "fetch_chunks_sync e s u (PyList (read_offsets off sz)) DEFAULT_CHUNK_SIZE = (r, s1)"
    by (cases "fetch_chunks_sync e s u (PyList (read_offsets off sz)) DEFAULT_CHUNK_SIZE")
  with fetch_chunks_sync_cache [of e s u "PyList (read_offsets off sz)" DEFAULT_CHUNK_SIZE]
  have "file_chunk_cache s1 = file_chunk_cache s" by simp
  then show ?thesis
    using Inr f by (cases r) (simp_all add: read_def maybe_prefetch_cache)
qed

lemma open_cache: "file_chunk_cache (snd (open e s ino fl)) = file_chunk_cache s"
proof -
  have "\<And>fn r s1. get_file_attr e s fn = (r, s1) \<Longrightarrow> file_chunk_cache s1 = file_chunk_cache s"
    using get_file_attr_cache by (metis snd_conv)
  then show ?thesis
    by (auto simp: open_def Let_def split: option.splits sum.splits prod.splits)
qed

lemma set_cache_bounded:
  assumes "cache_bounded s"
  shows "cache_bounded (s\<lparr>file_chunk_cache := snd (lru_setitem (file_chunk_cache s) k v)\<rparr>)"
  using assms lru_setitem_bound [of "file_chunk_cache s" k v]
  by (simp add: cache_bounded_def)

lemma store_chunks_bounded:
  "cache_bounded s \<Longrightarrow> cache_bounded (snd (store_chunks s u zs))"
proof (induction zs arbitrary: s)
  case Nil
  then show ?case by simp
next
  case (Cons z zs)
  obtain offset body where z: "z = (offset, body)" by (cases z)
  obtain r c where st: "lru_setitem (file_chunk_cache s) (u, offset) (Chunk body) = (r, c)"
    by (cases "lru_setitem (file_chunk_cache s) (u, offset) (Chunk body)")
  from set_cache_bounded [OF Cons.prems, of "(u, offset)" "Chunk body"] st
  have "cache_bounded (s\<lparr>file_chunk_cache := c\<rparr>)" by simp
  then show ?case
    using Cons z st by (cases r) simp_all
qed

lemma prefetch_loop_bounded:
  assumes "prefetch_loop e s u cur en cs = Some y"
  shows "cache_bounded s \<longrightarrow> cache_bounded (snd y)"
proof (rule prefetch_loop.raw_induct
    [where P = "\<lambda>e s u cur en cs y. cache_bounded s \<longrightarrow> cache_bounded (snd y)", OF _ assms],
    goal_cases)
  case (1 loop e s u current end_offset chunk_size ea)
  show ?case
  proof
    assume b: "cache_bounded s"
    show "cache_bounded (snd ea)"
    proof (cases "current < end_offset")
      case False
      with 1(2) b show ?thesis by auto
    next
      case True
      obtain offs cur' where
        cb: "collect_batch PREFETCH_BATCH_SIZE s u current end_offset chunk_size [] = (offs, cur')"
        by (cases "collect_batch PREFETCH_BATCH_SIZE s u current end_offset chunk_size []")
      show ?thesis
      proof (cases "offs = []")
        case True
        with 1(2) \<open>current < end_offset\<close> cb b show ?thesis by auto
      next
        case False
        obtain r s1 where f: "fetch_chunks_sync e s u (PyList offs) chunk_size = (r, s1)"
          by (cases "fetch_chunks_sync e s u (PyList offs) chunk_size")
        with fetch_chunks_sync_cache [of e s u "PyList offs" chunk_size] b
        have b1: "cache_bounded s1" by (simp add: cache_bounded_def)
        show ?thesis
        proof (cases r)
          case (Inl err)
          with 1(2) \<open>current < end_offset\<close> cb False f b1 show ?thesis by auto
        next
          case (Inr chunks)
          obtain r2 s2 where st: "store_chunks s1 u (zip offs chunks) = (r2, s2)"
            by (cases "store_chunks s1 u (zip offs chunks)")
          with store_chunks_bounded [OF b1, of u "zip offs chunks"]
          have b2: "cache_bounded s2" by simp
          show ?thesis
          proof (cases r2)
            case (Inl err)
            with 1(2) \<open>current < end_offset\<close> cb False f Inr st b2 show ?thesis by auto
          next
            case (Inr x)
            with 1(2) \<open>current < end_offset\<close> cb False f \<open>r = Inr chunks\<close> st
            have "loop e s2 u cur' end_offset chunk_size = Some ea" by simp
            from 1(1) [OF this] b2 show ?thesis by simp
          qed
        qed
      qed
    qed
  qed
qed

lemma prefetch_bounded:
  assumes "prefetch e s u start cs mb = Some (r, s')" and "cache_bounded s"
  shows "cache_bounded s'"
proof -
  obtain y where y: "prefetch_loop e s u start (start + mb) cs = Some y"
    using assms(1) by (auto simp: prefetch_def split: option.splits)
  from prefetch_loop_bounded [OF y] assms(2) have "cache_bounded (snd y)" by simp
  then show ?thesis
    using assms(1) y by (auto simp: prefetch_def cache_bounded_def split: prod.splits sum.splits)
qed

lemma get_file_chunk_wake_bounded:
  assumes "cache_bounded s"
  shows "cache_bounded (snd (get_file_chunk_wake s u k))"
proof -
  have "snd (lru_get c k d) = c \<or> snd (lru_get c k d) = snd (lru_getitem c k)" for c :: "(chunk_key, cached) lru" and k d
    by (auto simp: lru_get_def split: prod.splits sum.splits)
  then show ?thesis
    using assms lru_getitem_bound [of "file_chunk_cache s" "(u, k)"]
    by (auto simp: get_file_chunk_wake_def cache_bounded_def split: prod.splits)
       (metis snd_conv)+
qed

lemma get_file_chunk_bounded:
  assumes "cache_bounded s"
  shows "cache_bounded (snd (get_file_chunk e s u k cs))"
proof (cases "lru_contains (file_chunk_cache s) (u, k)")
  case True
  then show ?thesis
    using assms lru_getitem_bound [of "file_chunk_cache s" "(u, k)"]
    by (auto simp: get_file_chunk_def cache_bounded_def split: prod.splits sum.splits)
next
  case False
  show ?thesis
  proof (cases "ongoing_requests s (u, k)")
    case None
    with False assms show ?thesis
      by (simp add: get_file_chunk_def Let_def fetch_int_offsets cache_bounded_def)
  next
    case (Some ev)
    with False assms get_file_chunk_wake_bounded [OF assms, of u k] show ?thesis
      by (simp add: get_file_chunk_def)
  qed
qed

lemma run_thread_bounded:
  assumes "run_thread e s i = Some s'" and "cache_bounded s"
  shows "cache_bounded s'"
proof (cases "i < length (threads s)")
  case False
  with assms show ?thesis by (simp add: run_thread_def)
next
  case True
  obtain u a b c where t: "threads s ! i = PrefetchThread u a b c"
    by (cases "threads s ! i")
  with True assms(1) obtain r s1 where p: "prefetch e s u a b c = Some (r, s1)"
    and s': "s' = s1\<lparr>threads := take i (threads s1) @ drop (Suc i) (threads s1)\<rparr>"
    by (auto simp: run_thread_def split: option.splits)
  from prefetch_bounded [OF p assms(2)] s' show ?thesis
    by (simp add: cache_bounded_def)
qed

lemma initial_bounded: "cache_bounded (initial_state files inodes)"
  by (simp add: cache_bounded_def initial_state_def lru_empty_def num_cache_chunks)

lemma collect_batch_done:
  "end_offset \<le> current \<Longrightarrow>
   collect_batch n s u current end_offset chunk_size acc = (acc, current)"
  by (cases n) simp_all

lemma collect_batch_step:
  "0 < n \<Longrightarrow>
   collect_batch n s u current end_offset chunk_size acc =
     (if current \<ge> end_offset then (acc, current)
      else if lru_contains (file_chunk_cache s) (u, current)
      then collect_batch (n - 1) s u (current + chunk_size) end_offset chunk_size acc
      else collect_batch (n - 1) s u (current + chunk_size) end_offset chunk_size
             (acc @ [current]))"
  by (cases n) simp_all

lemma one_file_cache_empty: "\<not> lru_contains (file_chunk_cache one_file) key"
  by (simp add: one_file_def initial_state_def lru_contains_def lru_keys_def lru_empty_def)

lemma collect_batch_one_file:
  "collect_batch PREFETCH_BATCH_SIZE one_file ''http://origin/a'' 0 5 DEFAULT_CHUNK_SIZE [] =
     ([0], DEFAULT_CHUNK_SIZE)"
  by (subst collect_batch_step)
     (simp_all add: PREFETCH_BATCH_SIZE_def one_file_cache_empty collect_batch_done
        DEFAULT_CHUNK_SIZE_def)

lemma fetch_dead_origin:
  "fetch_chunks_sync dead_origin s u (PyList [x]) cs =
     (Inl ClientError, s\<lparr>get_log := get_log s @ [(u, x, x + cs - 1)]\<rparr>)"
  by (simp add: fetch_chunks_sync_def fetch_chunks_async_def fetch_chunk_def dead_origin_def)

lemma prefetch_dead_origin:
  "prefetch dead_origin one_file ''http://origin/a'' 0 DEFAULT_CHUNK_SIZE 5 =
     Some (Inl ClientError, one_file\<lparr>get_log := [(''http://origin/a'', 0, 2097151)]\<rparr>)"
proof -
  have "prefetch_loop dead_origin one_file ''http://origin/a'' 0 5 DEFAULT_CHUNK_SIZE =
     Some (Inl ClientError, one_file\<lparr>get_log := [(''http://origin/a'', 0, 2097151)]\<rparr>)"
    by (subst prefetch_loop.simps)
       (simp add: collect_batch_one_file fetch_dead_origin,
        simp add: one_file_def initial_state_def DEFAULT_CHUNK_SIZE_def)
  then show ?thesis
    by (simp add: prefetch_def)
qed

lemma last_touch_snoc:
  "last_touch (ops @ [op]) k = (if touches op k then Suc (length ops) else last_touch ops k)"
  by (simp add: last_touch_def)

lemma last_touch_rev_le: "last_touch_rev ops k \<le> length ops"
  by (induction ops) auto

lemma last_touch_le: "last_touch ops k \<le> length ops"
  using last_touch_rev_le [of "rev ops" k] by (simp add: last_touch_def)

lemma recency_untouched:
  assumes ro: "recency_ordered ops ks" and un: "\<forall>k \<in> set ks. \<not> touches op k"
  shows "recency_ordered (ops @ [op]) ks"
proof -
  have "sorted_wrt (\<lambda>a b. last_touch ops a < last_touch ops b) ks"
    using ro by (simp add: recency_ordered_def)
  then have "sorted_wrt (\<lambda>a b. last_touch (ops @ [op]) a < last_touch (ops @ [op]) b) ks"
    by (rule sorted_wrt_mono_rel [rotated]) (use un in \<open>simp add: last_touch_snoc\<close>)
  with ro show ?thesis by (simp add: recency_ordered_def)
qed

lemma recency_touched:
  assumes ro: "recency_ordered ops ks0"
    and only: "\<And>x. touches op x \<longleftrightarrow> x = k"
  shows "recency_ordered (ops @ [op]) (filter (\<lambda>x. x \<noteq> k) (drop n ks0) @ [k])"
proof -
  let ?ks = "filter (\<lambda>x. x \<noteq> k) (drop n ks0)"
  have d: "distinct ?ks" and s: "sorted_wrt (\<lambda>a b. last_touch ops a < last_touch ops b) ?ks"
    using ro by (simp_all add: recency_ordered_def sorted_wrt_filter sorted_wrt_drop)
  have un: "\<forall>x \<in> set ?ks. \<not> touches op x"
    by (simp add: only)
  have s': "sorted_wrt (\<lambda>a b. last_touch (ops @ [op]) a < last_touch (ops @ [op]) b) ?ks"
    using s by (rule sorted_wrt_mono_rel [rotated]) (use un in \<open>simp add: last_touch_snoc\<close>)
  have "\<forall>x \<in> set ?ks. last_touch (ops @ [op]) x < last_touch (ops @ [op]) k"
  proof
    fix x assume "x \<in> set ?ks"
    then have "last_touch (ops @ [op]) x = last_touch ops x"
      using un by (simp add: last_touch_snoc)
    moreover have "last_touch (ops @ [op]) k = Suc (length ops)"
      by (simp add: last_touch_snoc only)
    ultimately show "last_touch (ops @ [op]) x < last_touch (ops @ [op]) k"
      using last_touch_le [of ops x] by simp
  qed
  with d s' show ?thesis
    by (simp add: recency_ordered_def sorted_wrt_append)
qed

lemma lru_keys_remove: "map fst (lru_remove k es) = filter (\<lambda>x. x \<noteq> k) (map fst es)"
  by (simp add: lru_remove_def filter_map comp_def)

lemma lru_keys_getitem:
  "lru_keys (snd (lru_getitem c k)) =
     (if lru_contains c k then filter (\<lambda>x. x \<noteq> k) (lru_keys c) @ [k] else lru_keys c)"
  by (auto simp: lru_getitem_def lru_contains_map_of lru_keys_def lru_keys_remove
      split: option.splits)

lemma lru_keys_setitem:
  "lru_keys (snd (lru_setitem c k v)) =
     (if maxsize c < 1 then lru_keys c
      else if lru_contains c k then filter (\<lambda>x. x \<noteq> k) (lru_keys c) @ [k]
      else drop (length (entries c) + 1 - nat (maxsize c)) (lru_keys c) @ [k])"
  by (simp add: lru_setitem_def lru_keys_def lru_keys_remove drop_map)

lemma cache_step_recency:
  assumes ro: "recency_ordered ops (lru_keys c)"
    and small: "maxsize c < 1 \<longrightarrow> entries c = []"
  shows "recency_ordered (ops @ [op]) (lru_keys (cache_step c op))"
proof (cases op)
  case (OpContains k)
  with recency_untouched [OF ro, of op] show ?thesis by simp
next
  case (OpGet k)
  then have only: "\<And>x. touches op x \<longleftrightarrow> x = k" by auto
  show ?thesis
  proof (cases "lru_contains c k")
    case True
    from recency_touched [OF ro only, of 0] OpGet True show ?thesis
      by (simp add: lru_keys_getitem)
  next
    case False
    with recency_untouched [OF ro, of op] OpGet show ?thesis
      by (auto simp: lru_keys_getitem lru_contains_def)
  qed
next
  case (OpPut k v)
  then have only: "\<And>x. touches op x \<longleftrightarrow> x = k" by auto
  show ?thesis
  proof (cases "maxsize c < 1")
    case True
    with small have "lru_keys c = []" by (simp add: lru_keys_def)
    with True OpPut show ?thesis
      by (simp add: lru_keys_setitem recency_ordered_def)
  next
    case False
    show ?thesis
    proof (cases "lru_contains c k")
      case True
      from recency_touched [OF ro only, of 0] OpPut True False show ?thesis
        by (simp add: lru_keys_setitem)
    next
      case absent: False
      let ?n = "length (entries c) + 1 - nat (maxsize c)"
      have "k \<notin> set (drop ?n (lru_keys c))"
        using absent by (auto simp: lru_contains_def dest: in_set_dropD)
      then have "filter (\<lambda>x. x \<noteq> k) (drop ?n (lru_keys c)) = drop ?n (lru_keys c)"
        by (auto simp: filter_id_conv)
      with recency_touched [OF ro only, of ?n] OpPut absent False show ?thesis
        by (simp add: lru_keys_setitem)
    qed
  qed
qed

lemma cache_step_small:
  assumes "maxsize c < 1 \<longrightarrow> entries c = []"
  shows "maxsize (cache_step c op) = maxsize c
    \<and> (maxsize (cache_step c op) < 1 \<longrightarrow> entries (cache_step c op) = [])"
  using assms
  by (cases op) (auto simp: lru_getitem_def lru_setitem_def lru_remove_def split: option.splits)

lemma cache_run_snoc: "cache_run c (ops @ [op]) = cache_step (cache_run c ops) op"
  by (simp add: cache_run_def)

lemma cache_run_recency:
  "maxsize (cache_run (lru_empty m) ops) = m
   \<and> (m < 1 \<longrightarrow> entries (cache_run (lru_empty m) ops) = [])
   \<and> recency_ordered ops (lru_keys (cache_run (lru_empty m) ops))"
proof (induction ops rule: rev_induct)
  case Nil
  show ?case
    by (simp add: cache_run_def lru_empty_def lru_keys_def recency_ordered_def)
next
  case (snoc op ops)
  let ?c = "cache_run (lru_empty m) ops"
  from snoc have small: "maxsize ?c < 1 \<longrightarrow> entries ?c = []"
    and ro: "recency_ordered ops (lru_keys ?c)" and mx: "maxsize ?c = m"
    by simp_all
  from cache_step_small [OF small, of op] cache_step_recency [OF ro small, of op] mx
  show ?case by (simp add: cache_run_snoc)
qed

lemma eviction_is_least_recent:
  assumes full: "int (length (entries (cache_run (lru_empty m) ops))) = m"
    and pos: "1 \<le> m"
    and absent: "\<not> lru_contains (cache_run (lru_empty m) ops) k"
  shows "lru_keys (cache_run (lru_empty m) (ops @ [OpPut k v])) =
           tl (lru_keys (cache_run (lru_empty m) ops)) @ [k]
    \<and> hd (lru_keys (cache_run (lru_empty m) ops)) \<in> set (lru_keys (cache_run (lru_empty m) ops))
    \<and> (\<forall>y \<in> set (lru_keys (cache_run (lru_empty m) ops)).
          last_touch ops (hd (lru_keys (cache_run (lru_empty m) ops))) \<le> last_touch ops y)"
proof -
  let ?c = "cache_run (lru_empty m) ops"
  have mx: "maxsize ?c = m" and ro: "recency_ordered ops (lru_keys ?c)"
    using cache_run_recency [of m ops] by simp_all
  have n: "length (entries ?c) + 1 - nat (maxsize ?c) = 1"
    using full pos mx by linarith
  have len: "length (lru_keys ?c) = nat m"
    using full by (simp add: lru_keys_def)
  then obtain x rest where ks: "lru_keys ?c = x # rest"
    using pos by (cases "lru_keys ?c") auto
  have a: "lru_keys (cache_run (lru_empty m) (ops @ [OpPut k v])) = tl (lru_keys ?c) @ [k]"
    using absent pos mx n by (simp add: cache_run_snoc lru_keys_setitem drop_Suc)
  have "\<forall>y \<in> set rest. last_touch ops x < last_touch ops y"
    using ro ks by (simp add: recency_ordered_def)
  then have "\<forall>y \<in> set (x # rest). last_touch ops x \<le> last_touch ops y"
    by (auto simp: less_imp_le)
  with a ks show ?thesis by simp
qed

lemma get_file_chunk_wake_is_get:
  "file_chunk_cache (snd (get_file_chunk_wake s u k)) =
     cache_step (file_chunk_cache s) (OpGet (u, k))"
  by (auto simp: get_file_chunk_wake_def lru_get_def lru_getitem_def lru_contains_map_of
      split: prod.splits sum.splits option.splits)

lemma get_file_chunk_is_get:
  "file_chunk_cache (snd (get_file_chunk e s u k cs)) =
     cache_step (file_chunk_cache s) (OpGet (u, k))"
proof (cases "lru_contains (file_chunk_cache s) (u, k)")
  case True
  then show ?thesis
    by (auto simp: get_file_chunk_def Let_def lru_getitem_def lru_contains_map_of
        split: prod.splits sum.splits option.splits)
next
  case False
  then have miss: "cache_step (file_chunk_cache s) (OpGet (u, k)) = file_chunk_cache s"
    by (simp add: lru_getitem_def lru_contains_map_of)
  show ?thesis
  proof (cases "ongoing_requests s (u, k)")
    case None
    with False miss show ?thesis
      by (simp add: get_file_chunk_def Let_def fetch_int_offsets)
  next
    case (Some ev)
    with False miss get_file_chunk_wake_is_get [of s u k] show ?thesis
      by (simp add: get_file_chunk_def)
  qed
qed

lemma store_chunks_is_puts:
  "file_chunk_cache (snd (store_chunks s u zs)) =
     cache_run (file_chunk_cache s) (map (\<lambda>(offset, body). OpPut (u, offset) (Chunk body)) zs)"
proof (induction zs arbitrary: s)
  case Nil
  show ?case by (simp add: cache_run_def)
next
  case (Cons z zs)
  obtain offset body where z: "z = (offset, body)" by (cases z)
  show ?case
  proof (cases "maxsize (file_chunk_cache s) < 1")
    case True
    have stay: "cache_run c (map (\<lambda>(offset, body). OpPut (u, offset) (Chunk body)) ys) = c"
      if "maxsize c < 1" for c :: "(chunk_key, cached) lru" and ys
      using that by (induction ys) (auto simp: cache_run_def lru_setitem_def)
    from True show ?thesis
      using stay [OF True, of "z # zs"] by (simp add: z lru_setitem_def)
  next
    case False
    then obtain c where st: "lru_setitem (file_chunk_cache s) (u, offset) (Chunk body) = (Inr (), c)"
      by (cases "lru_contains (file_chunk_cache s) (u, offset)") (simp_all add: lru_setitem_def)
    from Cons.IH [of "s\<lparr>file_chunk_cache := c\<rparr>"] st show ?thesis
      by (simp add: z cache_run_def)
  qed
qed

lemma refreshed_history_keys:
  "lru_keys (cache_run (lru_empty 2) refreshed_history) = [2, 1]
   \<and> int (length (entries (cache_run (lru_empty 2) refreshed_history))) = 2
   \<and> \<not> lru_contains (cache_run (lru_empty 2) refreshed_history) 3
   \<and> lru_keys (cache_run (lru_empty 2) (refreshed_history @ [OpPut 3 30])) = [1, 3]
   \<and> last_touch refreshed_history 2 = 2 \<and> last_touch refreshed_history 1 = 3"
  by (simp add: refreshed_history_def cache_run_def lru_empty_def lru_keys_def lru_setitem_def
      lru_getitem_def lru_contains_def lru_remove_def last_touch_def)

text \<open>
  C9. The cache is created with \<open>NUM_CACHE_CHUNKS\<close> = 200 MiB / 2 MiB = 100 slots. It starts
  within its bound; every operation of the program that touches the state (\<open>read\<close>, \<open>open\<close>,
  \<open>get_file_chunk\<close> and its wake-up, the insertion of a prefetch batch, a whole
  \<open>prefetch\<close> run and a thread running to its end) keeps it within the bound; so does every
  sequence of membership tests, lookups and insertions on the cache itself; and an
  insertion of a new key into a full cache drops the least recently used entry: after any
  history of operations on a cache that started empty, the resident keys are held without
  duplicates in the order in which they were last looked up or inserted, and the key that
  such an insertion drops is the first of them, the one whose last lookup or insertion
  lies furthest back. What the program does to the cache are such operations:
  \<open>get_file_chunk\<close> and its wake-up are a lookup of the key, a prefetch batch is the
  insertions of its chunks in order.
\<close>

theorem cache_bound_invariant:
  "NUM_CACHE_CHUNKS = 100
   \<and> cache_bounded (initial_state files inodes)
   \<and> (cache_bounded s \<longrightarrow>
         cache_bounded (snd (read e s fh off sz))
       \<and> cache_bounded (snd (open e s ino fl))
       \<and> cache_bounded (snd (get_file_chunk e s u k cs))
       \<and> cache_bounded (snd (get_file_chunk_wake s u k))
       \<and> cache_bounded (snd (store_chunks s u zs))
       \<and> (\<forall>r s'. prefetch e s u start cs mb = Some (r, s') \<longrightarrow> cache_bounded s')
       \<and> (\<forall>s' i. run_thread e s i = Some s' \<longrightarrow> cache_bounded s'))
   \<and> length (entries (cache_run (lru_empty NUM_CACHE_CHUNKS) ops)) \<le> 100
   \<and> (int (length (entries c)) = maxsize c \<and> 1 \<le> maxsize c \<and> \<not> lru_contains c key \<longrightarrow>
        lru_setitem c key val = (Inr (), c\<lparr>entries := tl (entries c) @ [(key, val)]\<rparr>))
   \<and> recency_ordered ops (lru_keys (cache_run (lru_empty m) ops))
   \<and> (int (length (entries (cache_run (lru_empty m) ops))) = m \<and> 1 \<le> m
        \<and> \<not> lru_contains (cache_run (lru_empty m) ops) key \<longrightarrow>
          lru_keys (cache_run (lru_empty m) (ops @ [OpPut key val])) =
            tl (lru_keys (cache_run (lru_empty m) ops)) @ [key]
        \<and> hd (lru_keys (cache_run (lru_empty m) ops)) \<in> set (lru_keys (cache_run (lru_empty m) ops))
        \<and> (\<forall>y \<in> set (lru_keys (cache_run (lru_empty m) ops)).
              last_touch ops (hd (lru_keys (cache_run (lru_empty m) ops))) \<le> last_touch ops y))
   \<and> file_chunk_cache (snd (get_file_chunk e s u k cs)) =
        cache_step (file_chunk_cache s) (OpGet (u, k))
   \<and> file_chunk_cache (snd (get_file_chunk_wake s u k)) =
        cache_step (file_chunk_cache s) (OpGet (u, k))
   \<and> file_chunk_cache (snd (store_chunks s u zs)) =
        cache_run (file_chunk_cache s) (map (\<lambda>(offset, body). OpPut (u, offset) (Chunk body)) zs)"
proof -
  have "int (length (entries (lru_empty NUM_CACHE_CHUNKS :: ('a, 'b) lru)))
        \<le> maxsize (lru_empty NUM_CACHE_CHUNKS :: ('a, 'b) lru)"
    by (simp add: lru_empty_def num_cache_chunks)
  from cache_run_bound [OF this, of ops]
  have run: "length (entries (cache_run (lru_empty NUM_CACHE_CHUNKS) ops)) \<le> 100"
    by (simp add: lru_empty_def num_cache_chunks)
  have ops: "cache_bounded (snd (read e s fh off sz))
       \<and> cache_bounded (snd (open e s ino fl))
       \<and> cache_bounded (snd (get_file_chunk e s u k cs))
       \<and> cache_bounded (snd (get_file_chunk_wake s u k))
       \<and> cache_bounded (snd (store_chunks s u zs))
       \<and> (\<forall>r s'. prefetch e s u start cs mb = Some (r, s') \<longrightarrow> cache_bounded s')
       \<and> (\<forall>s' i. run_thread e s i = Some s' \<longrightarrow> cache_bounded s')"
    if b: "cache_bounded s"
  proof -
    have "cache_bounded (snd (read e s fh off sz))"
      using b by (simp add: cache_bounded_def read_cache)
    moreover have "cache_bounded (snd (open e s ino fl))"
      using b by (simp add: cache_bounded_def open_cache)
    moreover have "\<forall>r s'. prefetch e s u start cs mb = Some (r, s') \<longrightarrow> cache_bounded s'"
      by (blast intro: prefetch_bounded [OF _ b])
    moreover have "\<forall>s' i. run_thread e s i = Some s' \<longrightarrow> cache_bounded s'"
      by (blast intro: run_thread_bounded [OF _ b])
    ultimately show ?thesis
      using get_file_chunk_bounded [OF b] get_file_chunk_wake_bounded [OF b]
        store_chunks_bounded [OF b] by simp
  qed
  have ev: "int (length (entries c)) = maxsize c \<and> 1 \<le> maxsize c \<and> \<not> lru_contains c key \<longrightarrow>
        lru_setitem c key val = (Inr (), c\<lparr>entries := tl (entries c) @ [(key, val)]\<rparr>)"
    by (simp add: lru_evicts_oldest)
  have bound: "NUM_CACHE_CHUNKS = 100
   \<and> cache_bounded (initial_state files inodes)
   \<and> (cache_bounded s \<longrightarrow>
         cache_bounded (snd (read e s fh off sz))
       \<and> cache_bounded (snd (open e s ino fl))
       \<and> cache_bounded (snd (get_file_chunk e s u k cs))
       \<and> cache_bounded (snd (get_file_chunk_wake s u k))
       \<and> cache_bounded (snd (store_chunks s u zs))
       \<and> (\<forall>r s'. prefetch e s u start cs mb = Some (r, s') \<longrightarrow> cache_bounded s')
       \<and> (\<forall>s' i. run_thread e s i = Some s' \<longrightarrow> cache_bounded s'))
   \<and> length (entries (cache_run (lru_empty NUM_CACHE_CHUNKS) ops)) \<le> 100
   \<and> (int (length (entries c)) = maxsize c \<and> 1 \<le> maxsize c \<and> \<not> lru_contains c key \<longrightarrow>
        lru_setitem c key val = (Inr (), c\<lparr>entries := tl (entries c) @ [(key, val)]\<rparr>))"
    using num_cache_chunks initial_bounded [of files inodes] ops run ev by blast
  have order: "recency_ordered ops (lru_keys (cache_run (lru_empty m) ops))"
    using cache_run_recency [of m ops] by simp
  have victim: "int (length (entries (cache_run (lru_empty m) ops))) = m \<and> 1 \<le> m
        \<and> \<not> lru_contains (cache_run (lru_empty m) ops) key \<longrightarrow>
          lru_keys (cache_run (lru_empty m) (ops @ [OpPut key val])) =
            tl (lru_keys (cache_run (lru_empty m) ops)) @ [key]
        \<and> hd (lru_keys (cache_run (lru_empty m) ops)) \<in> set (lru_keys (cache_run (lru_empty m) ops))
        \<and> (\<forall>y \<in> set (lru_keys (cache_run (lru_empty m) ops)).
              last_touch ops (hd (lru_keys (cache_run (lru_empty m) ops))) \<le> last_touch ops y)"
  proof (intro impI, elim conjE)
    assume "int (length (entries (cache_run (lru_empty m) ops))) = m" and "1 \<le> m"
      and "\<not> lru_contains (cache_run (lru_empty m) ops) key"
    then show "lru_keys (cache_run (lru_empty m) (ops @ [OpPut key val])) =
            tl (lru_keys (cache_run (lru_empty m) ops)) @ [key]
        \<and> hd (lru_keys (cache_run (lru_empty m) ops)) \<in> set (lru_keys (cache_run (lru_empty m) ops))
        \<and> (\<forall>y \<in> set (lru_keys (cache_run (lru_empty m) ops)).
              last_touch ops (hd (lru_keys (cache_run (lru_empty m) ops))) \<le> last_touch ops y)"
      by (rule eviction_is_least_recent)
  qed
  show ?thesis
    by (intro conjI bound [THEN conjunct1] bound [THEN conjunct2, THEN conjunct1]
        bound [THEN conjunct2, THEN conjunct2, THEN conjunct1]
        bound [THEN conjunct2, THEN conjunct2, THEN conjunct2, THEN conjunct1]
        bound [THEN conjunct2, THEN conjunct2, THEN conjunct2, THEN conjunct2]
        order victim get_file_chunk_is_get get_file_chunk_wake_is_get store_chunks_is_puts)
qed

theorem cache_bound_invariant_witness:
  "cache_bounded one_file
   \<and> prefetch dead_origin one_file ''http://origin/a'' 0 DEFAULT_CHUNK_SIZE 5 =
       Some (Inl ClientError, one_file\<lparr>get_log := [(''http://origin/a'', 0, 2097151)]\<rparr>)
   \<and> cache_bounded (one_file\<lparr>get_log := [(''http://origin/a'', 0, 2097151)]\<rparr>)
   \<and> cache_bounded (snd (read dead_origin one_file 2 0 1))
   \<and> int (length (entries two_slots)) = maxsize two_slots \<and> 1 \<le> maxsize two_slots
   \<and> \<not> lru_contains two_slots 3
   \<and> lru_setitem two_slots 3 30 = (Inr (), two_slots\<lparr>entries := [(2, 20), (3, 30)]\<rparr>)
   \<and> length (entries (cache_run (lru_empty NUM_CACHE_CHUNKS) refreshed_history)) \<le> 100
   \<and> lru_keys (cache_run (lru_empty 2) refreshed_history) = [2, 1]
   \<and> int (length (entries (cache_run (lru_empty 2) refreshed_history))) = 2
   \<and> \<not> lru_contains (cache_run (lru_empty 2) refreshed_history) 3
   \<and> lru_keys (cache_run (lru_empty 2) (refreshed_history @ [OpPut 3 30])) = [1, 3]
   \<and> last_touch refreshed_history 2 = 2 \<and> last_touch refreshed_history 1 = 3
   \<and> recency_ordered refreshed_history [2, 1]"
proof -
  have b: "cache_bounded one_file"
    unfolding one_file_def by (rule initial_bounded)
  have h1: "int (length (entries two_slots)) = maxsize two_slots"
    and h2: "1 \<le> maxsize two_slots"
    and h3: "\<not> lru_contains two_slots 3"
    by (simp_all add: two_slots_def lru_contains_def lru_keys_def)
  have t: "tl (entries two_slots) @ [(3, 30)] = [(2, 20), (3, 30)]"
    by (simp add: two_slots_def)
  have keys: "lru_keys (cache_run (lru_empty 2) refreshed_history) = [2, 1]"
    and full: "int (length (entries (cache_run (lru_empty 2) refreshed_history))) = 2"
    and absent: "\<not> lru_contains (cache_run (lru_empty 2) refreshed_history) 3"
    and l2: "last_touch refreshed_history 2 = 2"
    and l1: "last_touch refreshed_history 1 = 3"
    using refreshed_history_keys by simp_all
  note inv = cache_bound_invariant [where c = two_slots and key = 3 and val = 30
        and ops = refreshed_history and m = 2
        and s = one_file and e = dead_origin and u = "''http://origin/a''"
        and start = 0 and cs = DEFAULT_CHUNK_SIZE and mb = 5
        and fh = 2 and off = 0 and sz = 1]
  have ev: "lru_setitem two_slots 3 30 =
      (Inr (), two_slots\<lparr>entries := tl (entries two_slots) @ [(3, 30)]\<rparr>)"
    using inv h1 h2 h3 by blast
  have pf: "cache_bounded (one_file\<lparr>get_log := [(''http://origin/a'', 0, 2097151)]\<rparr>)"
    using inv b prefetch_dead_origin by blast
  have rd: "cache_bounded (snd (read dead_origin one_file 2 0 1))"
    using inv b by blast
  have run: "length (entries (cache_run (lru_empty NUM_CACHE_CHUNKS) refreshed_history)) \<le> 100"
    using inv by blast
  have "lru_keys (cache_run (lru_empty 2) (refreshed_history @ [OpPut 3 30])) =
          tl (lru_keys (cache_run (lru_empty 2) refreshed_history)) @ [3]"
    using inv full absent by simp
  then have after: "lru_keys (cache_run (lru_empty 2) (refreshed_history @ [OpPut 3 30])) = [1, 3]"
    by (simp add: keys)
  have "recency_ordered refreshed_history (lru_keys (cache_run (lru_empty 2) refreshed_history))"
    using inv by blast
  then have order: "recency_ordered refreshed_history [2, 1]"
    by (simp add: keys)
  show ?thesis
    using b prefetch_dead_origin pf rd h1 h2 h3 ev [unfolded t] run keys full absent after l2 l1 order
    by (intro conjI)
qed

subsection \<open>The size probe\<close>

lemma probe_failed_state_eq:
  "get_file_attr dead_origin one_file ''a.mkv'' =
     (Inr \<lparr>st_ino = 2, st_mode = 33060, st_size = 0, st_uid = 0, st_gid = 0,
            st_atime_ns = 0, st_mtime_ns = 0, st_ctime_ns = 0, st_nlink = 1\<rparr>,
      one_file\<lparr>head_log := [''http://origin/a''],
        file_attributes_cache := [''a.mkv'' \<mapsto>
          \<lparr>st_ino = 2, st_mode = 33060, st_size = 0, st_uid = 0, st_gid = 0,
            st_atime_ns = 0, st_mtime_ns = 0, st_ctime_ns = 0, st_nlink = 1\<rparr>]\<rparr>)"
  by (simp add: get_file_attr_def Let_def one_file_def initial_state_def dead_origin_def)

text \<open>
  C8 as stated fails: after a failed probe the attributes with size 0 are in
  \<open>file_attributes_cache\<close>; the next query, made when the origin would answer with the true
  size 3, returns size 0 again and sends no HEAD.
\<close>

theorem failed_probe_is_cached:
  "http_head dead_origin ''http://origin/a'' = Inl ClientError
   \<and> map_option st_size (file_attributes_cache probe_failed_state ''a.mkv'') = Some 0
   \<and> http_head (fake_origin [10, 11, 12]) ''http://origin/a'' = Inr (Some 3)
   \<and> map_sum id st_size (fst (get_file_attr (fake_origin [10, 11, 12]) probe_failed_state ''a.mkv''))
       = Inr 0
   \<and> head_log probe_failed_state = [''http://origin/a'']
   \<and> head_log (snd (get_file_attr (fake_origin [10, 11, 12]) probe_failed_state ''a.mkv''))
       = [''http://origin/a'']"
proof -
  have s: "probe_failed_state =
      one_file\<lparr>head_log := [''http://origin/a''],
        file_attributes_cache := [''a.mkv'' \<mapsto>
          \<lparr>st_ino = 2, st_mode = 33060, st_size = 0, st_uid = 0, st_gid = 0,
            st_atime_ns = 0, st_mtime_ns = 0, st_ctime_ns = 0, st_nlink = 1\<rparr>]\<rparr>"
    by (simp add: probe_failed_state_def probe_failed_state_eq)
  show ?thesis
    unfolding s by (simp add: get_file_attr_def dead_origin_def fake_origin_def)
qed

text \<open>
  C8, amended. When the HEAD request for the content length of a file not yet probed
  fails, the size is reported as zero and one HEAD has been sent; the attributes with that
  size are cached, so every later query for the file, whatever the origin would answer
  then, returns the same attributes and sends no request.
\<close>

theorem failed_probe_reports_zero_and_stays:
  assumes fresh: "file_attributes_cache s filename = None"
    and ino: "map_of (INODE_MAP s) filename = Some inode"
    and reg: "map_of (FILES s) filename = Some u"
    and fails: "http_head e u = Inl err"
  shows "map_sum id st_size (fst (get_file_attr e s filename)) = Inr 0
    \<and> head_log (snd (get_file_attr e s filename)) = head_log s @ [u]
    \<and> get_file_attr e' (snd (get_file_attr e s filename)) filename =
        (fst (get_file_attr e s filename), snd (get_file_attr e s filename))"
  using assms by (simp add: get_file_attr_def Let_def)

theorem failed_probe_reports_zero_and_stays_witness:
  "file_attributes_cache one_file ''a.mkv'' = None
   \<and> map_of (INODE_MAP one_file) ''a.mkv'' = Some 2
   \<and> map_of (FILES one_file) ''a.mkv'' = Some ''http://origin/a''
   \<and> http_head dead_origin ''http://origin/a'' = Inl ClientError
   \<and> map_sum id st_size (fst (get_file_attr dead_origin one_file ''a.mkv'')) = Inr 0
   \<and> get_file_attr (fake_origin [10, 11, 12]) (snd (get_file_attr dead_origin one_file ''a.mkv'')) ''a.mkv''
       = (fst (get_file_attr dead_origin one_file ''a.mkv''),
          snd (get_file_attr dead_origin one_file ''a.mkv''))"
proof -
  have fresh: "file_attributes_cache one_file ''a.mkv'' = None"
    and ino: "map_of (INODE_MAP one_file) ''a.mkv'' = Some 2"
    and reg: "map_of (FILES one_file) ''a.mkv'' = Some ''http://origin/a''"
    by (simp_all add: one_file_def initial_state_def)
  have fails: "http_head dead_origin ''http://origin/a'' = Inl ClientError"
    by (simp add: dead_origin_def)
  from failed_probe_reports_zero_and_stays [OF fresh ino reg fails, of "fake_origin [10, 11, 12]"]
    fresh ino reg fails
  show ?thesis by blast
qed

subsection \<open>Reads, the cache and the prefetch workers\<close>

lemma url_of_one_file: "url_of_handle one_file 2 = Inr ''http://origin/a''"
  by (simp add: url_of_handle_def one_file_def initial_state_def)

lemma read_offsets_first_byte: "read_offsets 0 1 = [0]"
  by (simp add: read_offsets_def DEFAULT_CHUNK_SIZE_def py_range.simps)

lemma read_log:
  assumes "url_of_handle s fh = Inr u"
  shows "get_log (snd (read e s fh off sz)) =
         get_log s @ map (\<lambda>x. (u, x, x + DEFAULT_CHUNK_SIZE - 1)) (read_offsets off sz)"
  using assms
  by (simp add: read_def fetch_chunks_sync_def fetch_chunks_async_def maybe_prefetch_def Let_def
      split: sum.splits)

lemma read_first_byte:
  assumes "url_of_handle s 2 = Inr ''http://origin/a''"
  shows "read three_bytes s 2 0 1 =
     (Inr [10],
      maybe_prefetch (s\<lparr>get_log := get_log s @ [(''http://origin/a'', 0, 2097151)]\<rparr>)
        ''http://origin/a'' 1)"
  using assms
  by (simp add: read_def read_offsets_first_byte fetch_chunks_sync_def fetch_chunks_async_def
      fetch_chunk_def three_bytes_def fake_origin_def read_result_def py_take_def py_drop_def
      DEFAULT_CHUNK_SIZE_def)

lemma maybe_prefetch_uncached:
  assumes "\<forall>k \<in> set (lru_keys (file_chunk_cache s)). fst k \<noteq> u"
  shows "maybe_prefetch s u x =
     s\<lparr>threads := threads s @ [PrefetchThread u x DEFAULT_CHUNK_SIZE MAX_PREFETCH_AHEAD]\<rparr>"
proof -
  have "[off. (u', off) \<leftarrow> lru_keys (file_chunk_cache s), u' = u] = []"
    using assms by (induction "lru_keys (file_chunk_cache s)") (auto split: prod.splits)
  then show ?thesis
    by (simp add: maybe_prefetch_def Let_def MAX_PREFETCH_AHEAD_def)
qed

lemma one_file_no_keys: "lru_keys (file_chunk_cache one_file) = []"
  by (simp add: one_file_def initial_state_def lru_keys_def lru_empty_def)

lemma read_one_file:
  "read three_bytes one_file 2 0 1 =
     (Inr [10],
      one_file\<lparr>get_log := [(''http://origin/a'', 0, 2097151)],
        threads := [PrefetchThread ''http://origin/a'' 1 DEFAULT_CHUNK_SIZE MAX_PREFETCH_AHEAD]\<rparr>)"
proof -
  have "get_log one_file = []" "threads one_file = []"
    by (simp_all add: one_file_def initial_state_def)
  then show ?thesis
    by (simp add: read_first_byte [OF url_of_one_file] maybe_prefetch_uncached one_file_no_keys)
qed

text \<open>
  C3 asks that \<open>read\<close> consults the cache and fetches only on a miss, so that a repeated
  read costs one GET per chunk in total. \<open>read\<close> passes every covering offset to
  \<open>fetch_chunks_sync\<close> and never looks at \<open>file_chunk_cache\<close> nor stores into it: reading
  the first byte twice sends two GETs for the first chunk and leaves the cache empty, and
  reading it when the first chunk is cached sends a GET all the same.
\<close>

theorem read_twice_fetches_twice:
  "fst (read three_bytes one_file 2 0 1) = Inr [10]
   \<and> entries (file_chunk_cache (snd (read three_bytes one_file 2 0 1))) = []
   \<and> fst (read three_bytes (snd (read three_bytes one_file 2 0 1)) 2 0 1) = Inr [10]
   \<and> get_log (snd (read three_bytes (snd (read three_bytes one_file 2 0 1)) 2 0 1)) =
       [(''http://origin/a'', 0, 2097151), (''http://origin/a'', 0, 2097151)]
   \<and> lru_contains (file_chunk_cache chunk0_cached) (''http://origin/a'', 0)
   \<and> get_log (snd (read three_bytes chunk0_cached 2 0 1)) = [(''http://origin/a'', 0, 2097151)]"
proof -
  define s1 where "s1 = one_file\<lparr>get_log := [(''http://origin/a'', 0, 2097151)],
        threads := [PrefetchThread ''http://origin/a'' 1 DEFAULT_CHUNK_SIZE MAX_PREFETCH_AHEAD]\<rparr>"
  have u1: "url_of_handle s1 2 = Inr ''http://origin/a''"
    by (simp add: s1_def url_of_handle_def one_file_def initial_state_def)
  have uc: "url_of_handle chunk0_cached 2 = Inr ''http://origin/a''"
    by (simp add: chunk0_cached_def url_of_handle_def one_file_def initial_state_def)
  have r1: "read three_bytes one_file 2 0 1 = (Inr [10], s1)"
    by (simp add: read_one_file s1_def)
  have e1: "entries (file_chunk_cache s1) = []"
    by (simp add: s1_def one_file_def initial_state_def lru_empty_def)
  have l1: "get_log s1 = [(''http://origin/a'', 0, 2097151)]"
    by (simp add: s1_def)
  have r2: "fst (read three_bytes s1 2 0 1) = Inr [10]"
    by (simp add: read_first_byte [OF u1])
  have l2: "get_log (snd (read three_bytes s1 2 0 1)) =
       [(''http://origin/a'', 0, 2097151), (''http://origin/a'', 0, 2097151)]"
    by (simp add: read_log [OF u1] l1 read_offsets_first_byte DEFAULT_CHUNK_SIZE_def)
  have c: "lru_contains (file_chunk_cache chunk0_cached) (''http://origin/a'', 0)"
    by (simp add: chunk0_cached_def lru_contains_def lru_keys_def)
  have gc: "get_log chunk0_cached = []"
    by (simp add: chunk0_cached_def one_file_def initial_state_def)
  have lc: "get_log (snd (read three_bytes chunk0_cached 2 0 1)) = [(''http://origin/a'', 0, 2097151)]"
    by (simp add: read_log [OF uc] gc read_offsets_first_byte DEFAULT_CHUNK_SIZE_def)
  show ?thesis
    unfolding r1 using e1 r2 l2 c lc by simp
qed

lemma opened_eq:
  "open three_bytes one_file 2 0 =
     (Inr 2,
      one_file\<lparr>head_log := [''http://origin/a''],
        file_attributes_cache := [''a.mkv'' \<mapsto>
          \<lparr>st_ino = 2, st_mode = 33060, st_size = 3, st_uid = 0, st_gid = 0,
            st_atime_ns = 0, st_mtime_ns = 0, st_ctime_ns = 0, st_nlink = 1\<rparr>],
        prefetch_threads := [''http://origin/a'' \<mapsto>
          PrefetchThread ''http://origin/a'' 0 DEFAULT_CHUNK_SIZE 3],
        threads := [PrefetchThread ''http://origin/a'' 0 DEFAULT_CHUNK_SIZE 3]\<rparr>)"
  by (simp add: open_def Let_def get_file_attr_def one_file_def initial_state_def
      three_bytes_def fake_origin_def lru_contains_def lru_keys_def lru_empty_def
      CACHE_MAX_SIZE_def)

lemma opened_is:
  "opened =
     one_file\<lparr>head_log := [''http://origin/a''],
        file_attributes_cache := [''a.mkv'' \<mapsto>
          \<lparr>st_ino = 2, st_mode = 33060, st_size = 3, st_uid = 0, st_gid = 0,
            st_atime_ns = 0, st_mtime_ns = 0, st_ctime_ns = 0, st_nlink = 1\<rparr>],
        prefetch_threads := [''http://origin/a'' \<mapsto>
          PrefetchThread ''http://origin/a'' 0 DEFAULT_CHUNK_SIZE 3],
        threads := [PrefetchThread ''http://origin/a'' 0 DEFAULT_CHUNK_SIZE 3]\<rparr>"
  by (simp add: opened_def opened_eq)

text \<open>
  C6 asks that both triggers do nothing while a worker runs for the url. \<open>open\<close> checks
  \<open>prefetch_threads\<close> (a second \<open>open\<close> changes nothing), \<open>maybe_prefetch\<close> does not:
  a read after the open starts a second worker for the same url while the first has not
  finished.
\<close>

theorem lookahead_starts_second_worker:
  "prefetch_threads opened ''http://origin/a'' =
       Some (PrefetchThread ''http://origin/a'' 0 DEFAULT_CHUNK_SIZE 3)
   \<and> threads opened = [PrefetchThread ''http://origin/a'' 0 DEFAULT_CHUNK_SIZE 3]
   \<and> threads (snd (read three_bytes opened 2 0 1)) =
       [PrefetchThread ''http://origin/a'' 0 DEFAULT_CHUNK_SIZE 3,
        PrefetchThread ''http://origin/a'' 1 DEFAULT_CHUNK_SIZE MAX_PREFETCH_AHEAD]
   \<and> length (filter (\<lambda>t. thread_url t = ''http://origin/a'')
        (threads (snd (read three_bytes opened 2 0 1)))) = 2
   \<and> open three_bytes opened 2 0 = (Inr 2, opened)"
proof -
  have o: "open three_bytes opened 2 0 = (Inr 2, opened)"
    by (simp add: open_def Let_def opened_is one_file_def initial_state_def)
  have u: "url_of_handle opened 2 = Inr ''http://origin/a''"
    by (simp add: opened_is url_of_handle_def one_file_def initial_state_def)
  have k: "lru_keys (file_chunk_cache opened) = []"
    by (simp add: opened_is one_file_no_keys)
  have t: "threads opened = [PrefetchThread ''http://origin/a'' 0 DEFAULT_CHUNK_SIZE 3]"
    and p: "prefetch_threads opened ''http://origin/a'' =
       Some (PrefetchThread ''http://origin/a'' 0 DEFAULT_CHUNK_SIZE 3)"
    by (simp_all add: opened_is)
  have "threads (snd (read three_bytes opened 2 0 1)) =
       [PrefetchThread ''http://origin/a'' 0 DEFAULT_CHUNK_SIZE 3,
        PrefetchThread ''http://origin/a'' 1 DEFAULT_CHUNK_SIZE MAX_PREFETCH_AHEAD]"
    by (simp add: read_first_byte [OF u] maybe_prefetch_uncached k t)
  with t p o show ?thesis by simp
qed

lemma prefetch_first_batch_fails:
  assumes "\<not> lru_contains (file_chunk_cache s) (u, start)" and "0 < mb" and "mb \<le> cs"
  shows "prefetch dead_origin s u start cs mb =
     Some (Inl ClientError, s\<lparr>get_log := get_log s @ [(u, start, start + cs - 1)]\<rparr>)"
proof -
  have "collect_batch PREFETCH_BATCH_SIZE s u start (start + mb) cs [] = ([start], start + cs)"
    using assms
    by (subst collect_batch_step) (simp_all add: PREFETCH_BATCH_SIZE_def collect_batch_done)
  then have "prefetch_loop dead_origin s u start (start + mb) cs =
     Some (Inl ClientError, s\<lparr>get_log := get_log s @ [(u, start, start + cs - 1)]\<rparr>)"
    using assms by (subst prefetch_loop.simps) (simp add: fetch_dead_origin)
  then show ?thesis
    by (simp add: prefetch_def)
qed

lemma prefetch_completes_and_clears:
  "map_option (\<lambda>(r, s). (r, prefetch_threads s ''http://origin/a'', lru_keys (file_chunk_cache s)))
     (prefetch three_bytes opened ''http://origin/a'' 0 DEFAULT_CHUNK_SIZE 3) =
   Some (Inr (), None, [(''http://origin/a'', 0)])"
proof -
  have c: "\<not> lru_contains (file_chunk_cache opened) (''http://origin/a'', 0)"
    by (simp add: opened_is one_file_cache_empty)
  have b: "collect_batch PREFETCH_BATCH_SIZE opened ''http://origin/a'' 0 3 DEFAULT_CHUNK_SIZE [] =
           ([0], DEFAULT_CHUNK_SIZE)"
    using c by (subst collect_batch_step)
      (simp_all add: PREFETCH_BATCH_SIZE_def collect_batch_done DEFAULT_CHUNK_SIZE_def)
  have f: "fetch_chunks_sync three_bytes opened ''http://origin/a'' (PyList [0]) DEFAULT_CHUNK_SIZE =
           (Inr [[10, 11, 12]], opened\<lparr>get_log := get_log opened @ [(''http://origin/a'', 0, 2097151)]\<rparr>)"
    by (simp add: fetch_chunks_sync_def fetch_chunks_async_def fetch_chunk_def three_bytes_def
        fake_origin_def DEFAULT_CHUNK_SIZE_def)
  define s1 where "s1 = opened\<lparr>get_log := get_log opened @ [(''http://origin/a'', 0, 2097151)]\<rparr>"
  define s2 where "s2 = s1\<lparr>file_chunk_cache := \<lparr>maxsize = NUM_CACHE_CHUNKS,
      entries = [((''http://origin/a'', 0), Chunk [10, 11, 12])]\<rparr>\<rparr>"
  have st: "store_chunks s1 ''http://origin/a'' [(0, [10, 11, 12])] = (Inr (), s2)"
    by (simp add: s1_def s2_def opened_is one_file_def initial_state_def lru_setitem_def
        lru_contains_def lru_keys_def lru_empty_def num_cache_chunks)
  have stop: "prefetch_loop three_bytes s2 ''http://origin/a'' DEFAULT_CHUNK_SIZE 3 DEFAULT_CHUNK_SIZE =
      Some (Inr (), s2)"
    by (subst prefetch_loop.simps) (simp add: DEFAULT_CHUNK_SIZE_def)
  have "prefetch_loop three_bytes opened ''http://origin/a'' 0 3 DEFAULT_CHUNK_SIZE =
      Some (Inr (), s2)"
    by (subst prefetch_loop.simps)
       (simp add: b f s1_def [symmetric] st stop del: store_chunks.simps)
  then show ?thesis
    by (simp add: prefetch_def s2_def s1_def lru_keys_def)
qed

text \<open>
  C7 asks that a worker clears its token on every termination. When the first batch of the
  warm-up worker fails, the exception leaves \<open>prefetch\<close> before
  \<open>prefetch_threads.pop(url, None)\<close>: the thread is gone, the token stays, and a later
  \<open>open\<close> starts no worker. On normal completion the same worker clears the token.
\<close>

theorem failed_prefetch_keeps_token:
  "prefetch dead_origin opened ''http://origin/a'' 0 DEFAULT_CHUNK_SIZE 3 =
       Some (Inl ClientError, opened\<lparr>get_log := [(''http://origin/a'', 0, 2097151)]\<rparr>)
   \<and> run_thread dead_origin opened 0 = Some worker_failed
   \<and> threads worker_failed = []
   \<and> prefetch_threads worker_failed ''http://origin/a'' =
       Some (PrefetchThread ''http://origin/a'' 0 DEFAULT_CHUNK_SIZE 3)
   \<and> open three_bytes worker_failed 2 0 = (Inr 2, worker_failed)
   \<and> map_option (\<lambda>(r, s). (r, prefetch_threads s ''http://origin/a'', lru_keys (file_chunk_cache s)))
        (prefetch three_bytes opened ''http://origin/a'' 0 DEFAULT_CHUNK_SIZE 3) =
       Some (Inr (), None, [(''http://origin/a'', 0)])"
proof -
  have c: "\<not> lru_contains (file_chunk_cache opened) (''http://origin/a'', 0)"
    by (simp add: opened_is one_file_cache_empty)
  have g: "get_log opened = []"
    and t: "threads opened = [PrefetchThread ''http://origin/a'' 0 DEFAULT_CHUNK_SIZE 3]"
    by (simp_all add: opened_is one_file_def initial_state_def)
  have p: "prefetch dead_origin opened ''http://origin/a'' 0 DEFAULT_CHUNK_SIZE 3 =
       Some (Inl ClientError, opened\<lparr>get_log := [(''http://origin/a'', 0, 2097151)]\<rparr>)"
    using prefetch_first_batch_fails [OF c, of 3 DEFAULT_CHUNK_SIZE] g
    by (simp add: DEFAULT_CHUNK_SIZE_def)
  have r: "run_thread dead_origin opened 0 = Some worker_failed"
    by (simp add: run_thread_def t p worker_failed_def)
  have tok: "prefetch_threads worker_failed ''http://origin/a'' =
       Some (PrefetchThread ''http://origin/a'' 0 DEFAULT_CHUNK_SIZE 3)"
    by (simp add: worker_failed_def opened_is)
  have o: "open three_bytes worker_failed 2 0 = (Inr 2, worker_failed)"
    using tok
    by (simp add: open_def Let_def worker_failed_def opened_is one_file_def
        initial_state_def)
  have w: "threads worker_failed = []"
    by (simp add: worker_failed_def)
  show ?thesis
    using p r w tok o prefetch_completes_and_clears by (intro conjI)
qed

subsection \<open>Overlapping reads and single flight\<close>

text \<open>A reader that runs alone does what \<open>read\<close> does.\<close>

lemma read_in_two_steps:
  "(case reader_step e s (Pending fh off sz) of (t, s1) \<Rightarrow> reader_step e s1 t) =
     (Finished (fst (read e s fh off sz)), snd (read e s fh off sz))"
  by (auto simp: read_send_def read_receive_def read_def fetch_chunks_sync_def
      fetch_chunks_async_def maybe_prefetch_def Let_def split: sum.splits)

lemma two_readers_sent:
  "run three_bytes two_readers [0, 1] =
     (one_file\<lparr>get_log := [(''http://origin/a'', 0, 2097151), (''http://origin/a'', 0, 2097151)]\<rparr>,
      [InFlight ''http://origin/a'' [0] 0 1, InFlight ''http://origin/a'' [0] 0 1])"
proof -
  have g: "get_log one_file = []"
    by (simp add: one_file_def initial_state_def)
  have u: "url_of_handle (one_file\<lparr>get_log := l\<rparr>) 2 = Inr ''http://origin/a''" for l
    by (simp add: url_of_handle_def one_file_def initial_state_def)
  show ?thesis
    by (simp add: run_def sched_step_def two_readers_def read_send_def url_of_one_file u g
        read_offsets_first_byte DEFAULT_CHUNK_SIZE_def)
qed

lemma two_readers_done:
  "run three_bytes two_readers [0, 1, 0, 1] =
     (maybe_prefetch (maybe_prefetch
        (one_file\<lparr>get_log := [(''http://origin/a'', 0, 2097151), (''http://origin/a'', 0, 2097151)]\<rparr>)
        ''http://origin/a'' 1) ''http://origin/a'' 1,
      [Finished (Inr [10]), Finished (Inr [10])])"
proof -
  have a: "run three_bytes two_readers [0, 1, 0, 1] =
      foldl (sched_step three_bytes) (run three_bytes two_readers [0, 1]) [0, 1]"
    by (simp add: run_def)
  have f: "fetch_chunk three_bytes ''http://origin/a'' 0 DEFAULT_CHUNK_SIZE = Inr [10, 11, 12]"
    by (simp add: fetch_chunk_def three_bytes_def fake_origin_def DEFAULT_CHUNK_SIZE_def)
  have r: "read_result 0 1 [[10, 11, 12]] = [10]"
    by (simp add: read_result_def py_take_def py_drop_def)
  show ?thesis
    unfolding a two_readers_sent
    by (simp add: sched_step_def read_receive_def f r)
qed

text \<open>
  C2 asks that no two fetches for one chunk key are in flight at once and that overlapping
  reads of the same chunk cost one GET. Two overlapping calls \<open>read(2, 0, 1)\<close> both send
  a GET for the first chunk before either has its reply: the key is in flight twice,
  \<open>ongoing_requests\<close> is never touched, and the origin has seen two GETs for the same
  range when both calls have returned.
\<close>

theorem concurrent_reads_fetch_same_chunk:
  "in_flight (run three_bytes two_readers [0, 1]) =
       [(''http://origin/a'', 0), (''http://origin/a'', 0)]
   \<and> \<not> distinct (in_flight (run three_bytes two_readers [0, 1]))
   \<and> ongoing_requests (fst (run three_bytes two_readers [0, 1])) = Map.empty
   \<and> snd (run three_bytes two_readers [0, 1, 0, 1]) = [Finished (Inr [10]), Finished (Inr [10])]
   \<and> get_log (fst (run three_bytes two_readers [0, 1, 0, 1])) =
       [(''http://origin/a'', 0, 2097151), (''http://origin/a'', 0, 2097151)]"
proof -
  have m: "get_log (maybe_prefetch s u x) = get_log s" for s u x
    by (simp add: maybe_prefetch_def Let_def)
  have o: "ongoing_requests one_file = Map.empty"
    by (simp add: one_file_def initial_state_def)
  show ?thesis
    unfolding two_readers_done two_readers_sent
    by (simp add: in_flight_def m o)
qed

end
